theory Spec2Isabelle
  imports Main "HOL-Library.Word"
begin

section \<open>The event router of the engine (router/router.hpp)\<close>

text \<open>
  The development embeds the class \<open>router::Router\<close>. Its constructor, its members and
  its constants are in \<open>router.hpp\<close>; the member functions that the header only declares
  (\<open>addRoute\<close>, \<open>removeRoute\<close>, \<open>changeRoutePriority\<close>, \<open>getRouteTable\<close>,
  \<open>tableToJson\<close>, \<open>dumpTableToStorage\<close>, \<open>run\<close>) and the collaborating classes
  (\<open>json::Json\<close>, \<open>store::IStore\<close>, \<open>builder::Builder\<close>, \<open>EnvironmentManager\<close>,
  \<open>Route\<close>) are modelled from the specification; each such definition says so.
  Mutexes, threads and the event queue are left out: every function is one atomic step on
  an explicit state.
\<close>

subsection \<open>Constants of the header\<close>

definition ROUTES_TABLE_NAME :: string where
  "ROUTES_TABLE_NAME = ''internal/router_table/0''"

definition JSON_PATH_NAME :: string where
  "JSON_PATH_NAME = ''/name''"

definition JSON_PATH_PRIORITY :: string where
  "JSON_PATH_PRIORITY = ''/priority''"

definition JSON_PATH_TARGET :: string where
  "JSON_PATH_TARGET = ''/target''"

subsection \<open>Errors, log and outcomes\<close>

text \<open>
  \<open>base::Error\<close> is a value with a message. The kinds are those of the error taxonomy of
  the specification (section 7).
\<close>

datatype error =
    EmptyName
  | NegativePriority
  | DuplicateName
  | DuplicatePriority
  | NotFound
  | BuildFailure
  | TargetNotFound
  | StoreKeyNotFound
  | PersistWriteFailure

fun message :: "error \<Rightarrow> string" where
  "message EmptyName = ''EmptyName''"
| "message NegativePriority = ''NegativePriority''"
| "message DuplicateName = ''DuplicateName''"
| "message DuplicatePriority = ''DuplicatePriority''"
| "message NotFound = ''NotFound''"
| "message BuildFailure = ''BuildFailure''"
| "message TargetNotFound = ''TargetNotFound''"
| "message StoreKeyNotFound = ''StoreKeyNotFound''"
| "message PersistWriteFailure = ''PersistWriteFailure''"

text \<open>
  A log entry is the call made to the logging macro: the level, the format string and the
  arguments, as the code passes them. Rendering the \<open>{}\<close> of the format string is the
  logger's work and is not modelled.
\<close>

datatype level = Debug | Warn | Err

type_synonym log_entry = "level \<times> string \<times> string list"

text \<open>The C++ \<open>int\<close>: 32 bits, read as a signed number by \<open>sint\<close>.\<close>

type_synonym c_int = "32 word"

subsection \<open>JSON documents\<close>

text \<open>
  Modelled from the spec: \<open>json::Json\<close> is not among the sources. The catalog is a JSON
  array of records \<open>{name, priority, target}\<close>; \<open>getArray\<close>, \<open>getString\<close> and
  \<open>getInt\<close> return an optional that is empty when the document (or the field under the
  one-segment path \<open>/key\<close>) is missing or of another type. \<open>getInt\<close> answers a C++
  \<open>int\<close>: a JSON number outside the range of \<open>int\<close> is not one.
\<close>

datatype json =
    JNull
  | JBool bool
  | JInt int
  | JString string
  | JArray "json list"
  | JObject "(string \<times> json) list"

type_synonym event = json

definition getArray :: "json \<Rightarrow> json list option" where
  "getArray j = (case j of JArray xs \<Rightarrow> Some xs | _ \<Rightarrow> None)"

definition json_at :: "string \<Rightarrow> json \<Rightarrow> json option" where
  "json_at path j =
     (if path \<noteq> [] \<and> hd path = CHR ''/''
      then (case j of JObject fields \<Rightarrow> map_of fields (tl path) | _ \<Rightarrow> None)
      else None)"

definition getString :: "string \<Rightarrow> json \<Rightarrow> string option" where
  "getString path j = (case json_at path j of Some (JString s) \<Rightarrow> Some s | _ \<Rightarrow> None)"

definition getInt :: "string \<Rightarrow> json \<Rightarrow> c_int option" where
  "getInt path j =
     (case json_at path j of
        Some (JInt i) \<Rightarrow> (if - (2 ^ 31) \<le> i \<and> i < 2 ^ 31 then Some (word_of_int i) else None)
      | _ \<Rightarrow> None)"

subsection \<open>The store\<close>

text \<open>
  Modelled from the spec: \<open>store::IStore\<close> is not among the sources. Section 6 gives it
  \<open>get(key)\<close>, answering the value or an error, and \<open>add\<close>/\<open>update\<close>, either of which
  overwrites. A write can fail (section 7, \<open>PersistWriteFailure\<close>): \<open>faults\<close> is the
  schedule of the coming write attempts, \<open>True\<close> for one that fails; once the schedule
  is used up every write succeeds.
\<close>

record store =
  docs :: "string \<rightharpoonup> json"
  faults :: "bool list"

definition store_get :: "store \<Rightarrow> string \<Rightarrow> error + json" where
  "store_get st key = (case docs st key of None \<Rightarrow> Inl StoreKeyNotFound | Some j \<Rightarrow> Inr j)"

definition store_write :: "string \<Rightarrow> json \<Rightarrow> store \<Rightarrow> error option \<times> store" where
  "store_write key v st =
     (case faults st of
        [] \<Rightarrow> (None, st\<lparr>docs := (docs st)(key \<mapsto> v)\<rparr>)
      | f # fs \<Rightarrow>
          (if f then (Some PersistWriteFailure, st\<lparr>faults := fs\<rparr>)
           else (None, st\<lparr>docs := (docs st)(key \<mapsto> v), faults := fs\<rparr>)))"

definition store_add :: "string \<Rightarrow> json \<Rightarrow> store \<Rightarrow> error option \<times> store" where
  "store_add = store_write"

definition store_update :: "string \<Rightarrow> json \<Rightarrow> store \<Rightarrow> error option \<times> store" where
  "store_update = store_write"

text \<open>
  What lies outside the router object: the store behind \<open>m_store\<close> and the log. A call
  returns, throws (\<open>std::runtime_error\<close> with its message) or ends the process.
\<close>

record world =
  w_store :: store
  w_log :: "log_entry list"

datatype 'a outcome =
    Returned 'a world
  | Thrown string world
  | Exited world

definition log_msg :: "level \<Rightarrow> string \<Rightarrow> string list \<Rightarrow> world \<Rightarrow> world" where
  "log_msg lv fmt args w = w\<lparr>w_log := w_log w @ [(lv, fmt, args)]\<rparr>"

subsection \<open>Builder, environments and routes\<close>

text \<open>
  Modelled from the spec: \<open>builder::Builder\<close> is not among the sources. Section 6:
  \<open>build(target)\<close> answers an evaluator and a predicate, or an error. The evaluator is
  opaque; what the model keeps of a built environment is its condition predicate.
\<close>

type_synonym predicate = "event \<Rightarrow> bool"

type_synonym builder = "string \<Rightarrow> error + predicate"

text \<open>
  Modelled from the spec: \<open>Route\<close> (route.hpp) is not among the sources. The header
  stores, under each priority, a \<open>std::vector<Route>\<close> with one instance per worker
  thread; an instance carries the route name, the target environment, the priority and
  that worker's replica of the condition.
\<close>

record route =
  r_name :: string
  r_target :: string
  r_priority :: nat
  r_predicate :: predicate

text \<open>
  Modelled from the spec: \<open>EnvironmentManager\<close> (environmentManager.hpp) is not among
  the sources. Section 4.2: \<open>acquire\<close> ensures that \<open>W\<close> replicas of the environment
  exist, building them with the builder on first reference, and counts the reference; a
  build failure leaves nothing behind. \<open>release\<close> drops a reference and tears the
  replicas down with the last one.
\<close>

record environment_manager =
  em_builder :: builder
  em_threads :: nat
  em_envs :: "string \<rightharpoonup> (nat \<times> predicate list)"

definition EnvironmentManager :: "builder \<Rightarrow> nat \<Rightarrow> environment_manager" where
  "EnvironmentManager b threads = \<lparr>em_builder = b, em_threads = threads, em_envs = Map.empty\<rparr>"

fun build_replicas :: "builder \<Rightarrow> string \<Rightarrow> nat \<Rightarrow> error + predicate list" where
  "build_replicas b target 0 = Inr []"
| "build_replicas b target (Suc n) =
     (case b target of
        Inl e \<Rightarrow> Inl e
      | Inr p \<Rightarrow>
          (case build_replicas b target n of
             Inl e \<Rightarrow> Inl e
           | Inr ps \<Rightarrow> Inr (p # ps)))"

definition acquire ::
  "string \<Rightarrow> environment_manager \<Rightarrow> error + (predicate list \<times> environment_manager)" where
  "acquire target em =
     (case em_envs em target of
        Some (refs, replicas) \<Rightarrow>
          Inr (replicas, em\<lparr>em_envs := (em_envs em)(target \<mapsto> (Suc refs, replicas))\<rparr>)
      | None \<Rightarrow>
          (case build_replicas (em_builder em) target (em_threads em) of
             Inl e \<Rightarrow> Inl e
           | Inr replicas \<Rightarrow>
               Inr (replicas, em\<lparr>em_envs := (em_envs em)(target \<mapsto> (1, replicas))\<rparr>)))"

definition release :: "string \<Rightarrow> environment_manager \<Rightarrow> environment_manager" where
  "release target em =
     (case em_envs em target of
        None \<Rightarrow> em
      | Some (refs, replicas) \<Rightarrow>
          (if refs \<le> 1 then em\<lparr>em_envs := (em_envs em)(target := None)\<rparr>
           else em\<lparr>em_envs := (em_envs em)(target \<mapsto> (refs - 1, replicas))\<rparr>))"

subsection \<open>The router object\<close>

text \<open>
  The data members of \<open>Router\<close>. \<open>m_namePriority\<close> is the unordered map from route
  name to priority; \<open>m_priorityRoute\<close> is the ordered map from priority to the vector of
  per-thread route instances, kept as an association list in ascending key order.
  \<open>m_store\<close> points into the world; \<open>m_mutexRoutes\<close>, \<open>m_threads\<close> and \<open>m_queue\<close>
  belong to the concurrent part and are not modelled.
\<close>

record router =
  m_namePriority :: "string \<rightharpoonup> nat"
  m_priorityRoute :: "(nat \<times> route list) list"
  m_isRunning :: bool
  m_environmentManager :: environment_manager
  m_builder :: builder
  m_numThreads :: nat

text \<open>\<open>std::map::insert\<close>: the pair goes to its place in key order; a key already present is kept.\<close>

fun map_insert :: "nat \<Rightarrow> 'v \<Rightarrow> (nat \<times> 'v) list \<Rightarrow> (nat \<times> 'v) list" where
  "map_insert k v [] = [(k, v)]"
| "map_insert k v ((k', v') # rest) =
     (if k < k' then (k, v) # (k', v') # rest
      else if k = k' then (k', v') # rest
      else (k', v') # map_insert k v rest)"

text \<open>\<open>std::map::erase\<close> by key.\<close>

fun map_erase :: "nat \<Rightarrow> (nat \<times> 'v) list \<Rightarrow> (nat \<times> 'v) list" where
  "map_erase k [] = []"
| "map_erase k ((k', v') # rest) =
     (if k = k' then map_erase k rest else (k', v') # map_erase k rest)"

text \<open>
  Modelled from the spec: \<open>getRouteTable\<close> is only declared in the header. Section 4.4:
  \<open>list()\<close> is the sequence of \<open>(name, priority, target)\<close> in ascending priority; each
  row is read off the first instance stored under the priority.
\<close>

fun route_rows :: "(nat \<times> route list) list \<Rightarrow> (string \<times> nat \<times> string) list" where
  "route_rows [] = []"
| "route_rows ((p, []) # rest) = route_rows rest"
| "route_rows ((p, x # xs) # rest) = (r_name x, p, r_target x) # route_rows rest"

definition getRouteTable :: "router \<Rightarrow> (string \<times> nat \<times> string) list" where
  "getRouteTable r = route_rows (m_priorityRoute r)"

text \<open>
  Modelled from the spec: \<open>tableToJson\<close> is only declared in the header, whose comment
  says: array of objects with the name, priority and target of each route, sorted by
  priority.
\<close>

definition row_json :: "string \<times> nat \<times> string \<Rightarrow> json" where
  "row_json row =
     (case row of (name, priority, target) \<Rightarrow>
        JObject [(''name'', JString name), (''priority'', JInt (int priority)),
                 (''target'', JString target)])"

definition tableToJson :: "router \<Rightarrow> json" where
  "tableToJson r = JArray (map row_json (getRouteTable r))"

text \<open>
  Modelled from the spec: \<open>dumpTableToStorage\<close> is only declared in the header, whose
  comment says that it exits the program if the store fails. Section 4.6: the full catalog
  is rewritten under the fixed key; a write failure is logged and is fatal. The spec says
  that the failure is logged, not with which text: the text of the entry is the model's.
\<close>

definition dumpTableToStorage :: "router \<Rightarrow> world \<Rightarrow> unit outcome" where
  "dumpTableToStorage r w =
     (case store_update ROUTES_TABLE_NAME (tableToJson r) (w_store w) of
        (Some e, st') \<Rightarrow>
          Exited (log_msg Err ''Router: Error updating routes table: {}'' [message e]
                    (w\<lparr>w_store := st'\<rparr>))
      | (None, st') \<Rightarrow> Returned () (w\<lparr>w_store := st'\<rparr>))"

text \<open>After a mutation: persist, and hand the mutated router back if the process lives on.\<close>

definition persist :: "router \<Rightarrow> world \<Rightarrow> (error option \<times> router) outcome" where
  "persist r w =
     (case dumpTableToStorage r w of
        Returned u w' \<Rightarrow> Returned (None, r) w'
      | Thrown msg w' \<Rightarrow> Thrown msg w'
      | Exited w' \<Rightarrow> Exited w')"

text \<open>
  Modelled from the spec: \<open>addRoute\<close> is only declared in the header
  (\<open>addRoute(routeName, envName, int priority)\<close>). Section 4.4, \<open>add\<close>: the errors are
  \<open>DuplicateName\<close>, \<open>DuplicatePriority\<close> and what the environment manager reports;
  sections 6 and 7 reject the empty name and the negative priority. On an error the router
  is unchanged; on success the route is in both indexes and the catalog is persisted.
  The priority arrives as a C++ \<open>int\<close>; a non-negative one is the same number as a
  \<open>std::size_t\<close>, the key of the indexes, which is a \<open>nat\<close> here: keys are compared
  and stored, never computed with.
\<close>

definition make_routes :: "string \<Rightarrow> string \<Rightarrow> nat \<Rightarrow> predicate list \<Rightarrow> route list" where
  "make_routes name target priority handles =
     map (\<lambda>h. \<lparr>r_name = name, r_target = target, r_priority = priority, r_predicate = h\<rparr>) handles"

definition addRoute ::
  "string \<Rightarrow> string \<Rightarrow> c_int \<Rightarrow> router \<Rightarrow> world \<Rightarrow> (error option \<times> router) outcome" where
  "addRoute routeName envName priority r w =
     (if routeName = [] then Returned (Some EmptyName, r) w
      else if sint priority < 0 then Returned (Some NegativePriority, r) w
      else if m_namePriority r routeName \<noteq> None then Returned (Some DuplicateName, r) w
      else if map_of (m_priorityRoute r) (nat (sint priority)) \<noteq> None
        then Returned (Some DuplicatePriority, r) w
      else
        (case acquire envName (m_environmentManager r) of
           Inl e \<Rightarrow> Returned (Some e, r) w
         | Inr (handles, em') \<Rightarrow>
             persist
               (r\<lparr>m_namePriority := (m_namePriority r)(routeName \<mapsto> nat (sint priority)),
                  m_priorityRoute :=
                    map_insert (nat (sint priority))
                      (make_routes routeName envName (nat (sint priority)) handles)
                      (m_priorityRoute r),
                  m_environmentManager := em'\<rparr>)
               w))"

text \<open>
  Modelled from the spec: \<open>removeRoute\<close> is only declared in the header. Section 4.4,
  \<open>remove\<close>: \<open>NotFound\<close> for an unknown name; otherwise the route leaves both indexes,
  its environment acquisition is released and the catalog is persisted.
\<close>

definition release_entry :: "route list option \<Rightarrow> environment_manager \<Rightarrow> environment_manager" where
  "release_entry entry em =
     (case entry of Some (x # xs) \<Rightarrow> release (r_target x) em | _ \<Rightarrow> em)"

definition removeRoute ::
  "string \<Rightarrow> router \<Rightarrow> world \<Rightarrow> (error option \<times> router) outcome" where
  "removeRoute name r w =
     (case m_namePriority r name of
        None \<Rightarrow> Returned (Some NotFound, r) w
      | Some priority \<Rightarrow>
          persist
            (r\<lparr>m_namePriority := (m_namePriority r)(name := None),
               m_priorityRoute := map_erase priority (m_priorityRoute r),
               m_environmentManager :=
                 release_entry (map_of (m_priorityRoute r) priority) (m_environmentManager r)\<rparr>)
            w)"

text \<open>
  Modelled from the spec: \<open>changeRoutePriority\<close> is only declared in the header
  (\<open>changeRoutePriority(name, int priority)\<close>). Section 4.4, \<open>changePriority\<close>: the
  errors are \<open>NotFound\<close> and \<open>DuplicatePriority\<close>; on success the route instances move
  to the new priority unchanged otherwise, and the catalog is persisted.
\<close>

definition reprioritize :: "nat \<Rightarrow> route list option \<Rightarrow> route list" where
  "reprioritize priority entry =
     (case entry of None \<Rightarrow> [] | Some rs \<Rightarrow> map (\<lambda>x. x\<lparr>r_priority := priority\<rparr>) rs)"

definition changeRoutePriority ::
  "string \<Rightarrow> c_int \<Rightarrow> router \<Rightarrow> world \<Rightarrow> (error option \<times> router) outcome" where
  "changeRoutePriority name priority r w =
     (if sint priority < 0 then Returned (Some NegativePriority, r) w
      else
        (case m_namePriority r name of
           None \<Rightarrow> Returned (Some NotFound, r) w
         | Some old \<Rightarrow>
             (if map_of (m_priorityRoute r) (nat (sint priority)) \<noteq> None
              then Returned (Some DuplicatePriority, r) w
              else
                persist
                  (r\<lparr>m_namePriority := (m_namePriority r)(name \<mapsto> nat (sint priority)),
                     m_priorityRoute :=
                       map_insert (nat (sint priority))
                         (reprioritize (nat (sint priority)) (map_of (m_priorityRoute r) old))
                         (map_erase old (m_priorityRoute r))\<rparr>)
                  w)))"

subsection \<open>The constructor\<close>

text \<open>The member initialisers, and the environment manager made for the same thread count.\<close>

definition empty_router :: "builder \<Rightarrow> nat \<Rightarrow> router" where
  "empty_router b threads =
     \<lparr>m_namePriority = Map.empty,
      m_priorityRoute = [],
      m_isRunning = False,
      m_environmentManager = EnvironmentManager b threads,
      m_builder = b,
      m_numThreads = threads\<rparr>"

text \<open>
  The loop over the records of the stored table. The warning for a record that
  \<open>addRoute\<close> refuses has the route name inside its format string, as the code builds
  it, and the message of the error as its one argument.
\<close>

fun load_routes :: "json list \<Rightarrow> router \<Rightarrow> world \<Rightarrow> router outcome" where
  "load_routes [] r w = Returned r w"
| "load_routes (jRoute # rest) r w =
     (case (getString JSON_PATH_NAME jRoute, getInt JSON_PATH_PRIORITY jRoute,
            getString JSON_PATH_TARGET jRoute) of
        (Some name, Some priority, Some target) \<Rightarrow>
          (case addRoute name target priority r w of
             Returned (None, r') w' \<Rightarrow> load_routes rest r' w'
           | Returned (Some err, r') w' \<Rightarrow>
               load_routes rest r'
                 (log_msg Warn
                    (''Router: couldn't add route '' @ name @ '' to the router: {}'')
                    [message err] w')
           | Thrown msg w' \<Rightarrow> Thrown msg w'
           | Exited w' \<Rightarrow> Exited w')
      | _ \<Rightarrow> Thrown ''Router: Can't get routes table from store. Invalid table format'' w)"

definition NO_ENVIRONMENT_WARNING :: string where
  "NO_ENVIRONMENT_WARNING =
     ''There is no environment loaded. Events will be written in disk once the queue is full.''"

text \<open>
  \<open>Router(builder, store, threads)\<close>. The builder pointer may be null (\<open>None\<close>); the
  store is the one of the world.
\<close>

definition Router :: "builder option \<Rightarrow> nat \<Rightarrow> world \<Rightarrow> router outcome" where
  "Router builder threads w =
     (if threads = 0
      then Thrown ''Router: The number of threads must be greater than 0.'' w
      else
        (case builder of
           None \<Rightarrow> Thrown ''Router: Builder can't be null.'' w
         | Some b \<Rightarrow>
             (case store_get (w_store w) ROUTES_TABLE_NAME of
                Inl error \<Rightarrow>
                  Returned (empty_router b threads)
                    ((log_msg Debug
                        ''Router: Routes table not found in store. Creating new table. {}''
                        [message error] w)
                     \<lparr>w_store := snd (store_add ROUTES_TABLE_NAME (JArray []) (w_store w))\<rparr>)
              | Inr doc \<Rightarrow>
                  (case getArray doc of
                     None \<Rightarrow>
                       Thrown ''Can't get routes table from store. Invalid table format.'' w
                   | Some table \<Rightarrow>
                       (case load_routes table (empty_router b threads) w of
                          Returned r w' \<Rightarrow>
                            Returned r
                              (if getRouteTable r = []
                               then log_msg Warn NO_ENVIRONMENT_WARNING [] w'
                               else w')
                        | Thrown msg w' \<Rightarrow> Thrown msg w'
                        | Exited w' \<Rightarrow> Exited w')))))"

text \<open>The declaration gives \<open>threads\<close> the default argument 1.\<close>

definition Router_default_threads :: "builder option \<Rightarrow> world \<Rightarrow> router outcome" where
  "Router_default_threads builder w = Router builder 1 w"

subsection \<open>Dispatch\<close>

text \<open>
  Modelled from the spec: the worker loop (\<open>run\<close>) is only declared in the header.
  Section 4.5: worker \<open>i\<close> walks the routes in ascending priority and, at the first route
  whose replica \<open>i\<close> of the condition holds for the event, calls \<open>ingest\<close> of that
  route's environment and stops; with no match the event is dropped. A worker index
  outside the vector matches nothing. \<open>dispatch\<close> answers the \<open>ingest\<close> calls made, each
  as (environment, worker, event).
\<close>

fun select_route :: "nat \<Rightarrow> event \<Rightarrow> (nat \<times> route list) list \<Rightarrow> (nat \<times> route) option" where
  "select_route i ev [] = None"
| "select_route i ev ((p, rs) # rest) =
     (if i < length rs \<and> r_predicate (rs ! i) ev then Some (p, rs ! i)
      else select_route i ev rest)"

definition dispatch :: "nat \<Rightarrow> event \<Rightarrow> router \<Rightarrow> (string \<times> nat \<times> event) list" where
  "dispatch i ev r =
     (case select_route i ev (m_priorityRoute r) of
        None \<Rightarrow> []
      | Some (p, x) \<Rightarrow> [(r_target x, i, ev)])"

text \<open>Route \<open>(p, rs)\<close> of the table matches the event on worker \<open>i\<close>.\<close>

definition route_matches :: "nat \<Rightarrow> event \<Rightarrow> nat \<times> route list \<Rightarrow> bool" where
  "route_matches i ev e = (case e of (p, rs) \<Rightarrow> i < length rs \<and> r_predicate (rs ! i) ev)"

subsection \<open>Sequences of management operations\<close>

datatype operation =
    AddRoute string string c_int
  | RemoveRoute string
  | ChangeRoutePriority string c_int

fun apply_operation ::
  "operation \<Rightarrow> router \<Rightarrow> world \<Rightarrow> (error option \<times> router) outcome" where
  "apply_operation (AddRoute name target priority) r w = addRoute name target priority r w"
| "apply_operation (RemoveRoute name) r w = removeRoute name r w"
| "apply_operation (ChangeRoutePriority name priority) r w = changeRoutePriority name priority r w"

text \<open>
  Operations run one after the other; one that answers an error has left the router as
  it was, and the next one runs on. The run ends early only with the process.
\<close>

fun run_ops :: "operation list \<Rightarrow> router \<Rightarrow> world \<Rightarrow> router outcome" where
  "run_ops [] r w = Returned r w"
| "run_ops (x # xs) r w =
     (case apply_operation x r w of
        Returned (err, r') w' \<Rightarrow> run_ops xs r' w'
      | Thrown msg w' \<Rightarrow> Thrown msg w'
      | Exited w' \<Rightarrow> Exited w')"

subsection \<open>Invariants of the route table\<close>

text \<open>I1: the names listed by the table are pairwise different.\<close>

definition I1 :: "router \<Rightarrow> bool" where
  "I1 r \<longleftrightarrow> distinct (map fst (getRouteTable r))"

text \<open>
  I2: the two indexes describe the same routes. Every name of \<open>m_namePriority\<close> has, under
  its priority, a non-empty vector of instances that all carry that name and priority; and
  every vector of \<open>m_priorityRoute\<close> is such a vector for a name of \<open>m_namePriority\<close>.
\<close>

definition I2 :: "router \<Rightarrow> bool" where
  "I2 r \<longleftrightarrow>
     (\<forall>name priority. m_namePriority r name = Some priority \<longrightarrow>
        (\<exists>rs. (priority, rs) \<in> set (m_priorityRoute r) \<and> rs \<noteq> [] \<and>
              (\<forall>x \<in> set rs. r_name x = name \<and> r_priority x = priority)))
     \<and> (\<forall>(priority, rs) \<in> set (m_priorityRoute r).
          rs \<noteq> [] \<and>
          (\<exists>name. m_namePriority r name = Some priority \<and>
                  (\<forall>x \<in> set rs. r_name x = name \<and> r_priority x = priority)))"

text \<open>I3: no priority occurs twice.\<close>

definition I3 :: "router \<Rightarrow> bool" where
  "I3 r \<longleftrightarrow> distinct (map fst (m_priorityRoute r))"

text \<open>
  The invariant that the operations maintain: at least one worker, the environment
  manager made for the same number of workers, keys in strictly ascending order, under
  each key (a number that came in as a non-negative C++ \<open>int\<close>) one instance per
  worker, all with one non-empty name, one target and the key as priority, the name index
  equal to the rows of the table, and every live environment built by the builder with one
  replica per worker.
\<close>

definition entry_ok :: "nat \<Rightarrow> nat \<times> route list \<Rightarrow> bool" where
  "entry_ok W e \<longleftrightarrow>
     (case e of (p, rs) \<Rightarrow>
        length rs = W \<and> p < 2 ^ 31 \<and>
        (\<exists>n t. n \<noteq> [] \<and> (\<forall>x \<in> set rs. r_name x = n \<and> r_target x = t \<and> r_priority x = p)))"

definition em_ok :: "environment_manager \<Rightarrow> bool" where
  "em_ok em \<longleftrightarrow>
     (\<forall>t refs reps. em_envs em t = Some (refs, reps) \<longrightarrow>
        length reps = em_threads em \<and> (\<exists>pred. em_builder em t = Inr pred))"

definition router_inv :: "router \<Rightarrow> bool" where
  "router_inv r \<longleftrightarrow>
     0 < m_numThreads r
     \<and> em_threads (m_environmentManager r) = m_numThreads r
     \<and> em_builder (m_environmentManager r) = m_builder r
     \<and> sorted_wrt (<) (map fst (m_priorityRoute r))
     \<and> (\<forall>e \<in> set (m_priorityRoute r). entry_ok (m_numThreads r) e)
     \<and> (\<forall>n p. m_namePriority r n = Some p \<longleftrightarrow>
               (\<exists>t. (n, p, t) \<in> set (route_rows (m_priorityRoute r))))
     \<and> em_ok (m_environmentManager r)"

text \<open>A store none of whose coming writes fails, and one that takes the next write.\<close>

definition reliable :: "store \<Rightarrow> bool" where
  "reliable st \<longleftrightarrow> True \<notin> set (faults st)"

definition accepts_write :: "store \<Rightarrow> bool" where
  "accepts_write st \<longleftrightarrow> (case faults st of [] \<Rightarrow> True | f # fs \<Rightarrow> \<not> f)"

text \<open>A record of the stored table has its three fields; a stored document is corrupt.\<close>

definition record_ok :: "json \<Rightarrow> bool" where
  "record_ok j \<longleftrightarrow>
     getString JSON_PATH_NAME j \<noteq> None \<and> getInt JSON_PATH_PRIORITY j \<noteq> None
     \<and> getString JSON_PATH_TARGET j \<noteq> None"


text \<open>The builder knows the target of a row; the warning logged for a row that it does not know.\<close>

definition buildable :: "builder \<Rightarrow> string \<times> nat \<times> string \<Rightarrow> bool" where
  "buildable b row = (case row of (n, p, t) \<Rightarrow> \<not> isl (b t))"

definition skip_warning :: "builder \<Rightarrow> string \<times> nat \<times> string \<Rightarrow> log_entry" where
  "skip_warning b row =
     (case row of (n, p, t) \<Rightarrow>
        (Warn, ''Router: couldn't add route '' @ n @ '' to the router: {}'',
               [case b t of Inl e \<Rightarrow> message e | Inr pred \<Rightarrow> []]))"

text \<open>The world with the schedule of failing writes emptied.\<close>

definition without_faults :: "world \<Rightarrow> world" where
  "without_faults w = w\<lparr>w_store := (w_store w)\<lparr>faults := []\<rparr>\<rparr>"

subsection \<open>Concrete instances\<close>

text \<open>
  Builders, stores, catalogs and operation sequences at which the theorems below are
  instantiated: a builder that knows every target, one that knows none, one that knows
  only \<open>TA\<close>; stores given by their documents and their schedule of failing writes.
\<close>

definition match_all :: predicate where
  "match_all ev = True"

definition open_builder :: builder where
  "open_builder target = Inr match_all"

definition no_builder :: builder where
  "no_builder target = Inl TargetNotFound"

definition only_TA :: builder where
  "only_TA target = (if target = ''TA'' then Inr match_all else Inl TargetNotFound)"

definition store_of :: "(string \<times> json) list \<Rightarrow> bool list \<Rightarrow> store" where
  "store_of kvs fs = \<lparr>docs = map_of kvs, faults = fs\<rparr>"

definition quiet_world :: "store \<Rightarrow> world" where
  "quiet_world st = \<lparr>w_store = st, w_log = []\<rparr>"

definition three_routes :: "operation list" where
  "three_routes = [AddRoute ''rC'' ''TC'' 1, AddRoute ''rA'' ''TA'' 5, AddRoute ''rB'' ''TB'' 10]"

definition mixed_ops :: "operation list" where
  "mixed_ops = three_routes @ [ChangeRoutePriority ''rB'' 0, RemoveRoute ''rC'']"



definition failing_store :: store where
  "failing_store = store_of [] [True]"

definition written_off :: world where
  "written_off =
     \<lparr>w_store = store_of [] [],
      w_log = [(Err, ''Router: Error updating routes table: {}'',
                [message PersistWriteFailure])]\<rparr>"

definition three_route_table :: router where
  "three_route_table =
     (case run_ops three_routes (empty_router open_builder 1) (quiet_world (store_of [] [])) of
        Returned r w \<Rightarrow> r
      | Thrown msg w \<Rightarrow> empty_router open_builder 1
      | Exited w \<Rightarrow> empty_router open_builder 1)"

definition route_A :: "nat \<times> route list" where
  "route_A = (5, make_routes ''rA'' ''TA'' 5 [match_all])"

definition route_B :: "nat \<times> route list" where
  "route_B = (10, make_routes ''rB'' ''TB'' 10 [match_all])"

definition one_route_store :: store where
  "one_route_store = store_of [(ROUTES_TABLE_NAME, JArray [row_json (''r1'', 7, ''TA'')])] []"

definition mixed_rows :: "(string \<times> nat \<times> string) list" where
  "mixed_rows = [(''r1'', 1, ''TA''), (''r{}2'', 2, ''TB''), (''r3'', 3, ''TA'')]"

definition mixed_catalog_store :: store where
  "mixed_catalog_store = store_of [(ROUTES_TABLE_NAME, JArray (map row_json mixed_rows))] []"

definition unknown_target_store :: store where
  "unknown_target_store =
     store_of [(ROUTES_TABLE_NAME, JArray [row_json (''r1'', 7, ''TB'')])] []"

definition nothing_loaded :: world where
  "nothing_loaded =
     \<lparr>w_store = unknown_target_store,
      w_log = [(Warn, ''Router: couldn't add route r1 to the router: {}'', [''TargetNotFound'']),
               (Warn, NO_ENVIRONMENT_WARNING, [])]\<rparr>"

definition world_after_missing :: world where
  "world_after_missing =
     \<lparr>w_store = store_of [(ROUTES_TABLE_NAME, JArray [])] [],
      w_log = [(Debug, ''Router: Routes table not found in store. Creating new table. {}'',
                [message StoreKeyNotFound])]\<rparr>"

section \<open>Auxiliary facts\<close>

subsection \<open>Rows, insertion and erasure\<close>

lemma route_rows_iff:
  "(n, p, t) \<in> set (route_rows m) \<longleftrightarrow>
   (\<exists>x xs. (p, x # xs) \<in> set m \<and> n = r_name x \<and> t = r_target x)"
  by (induction m rule: route_rows.induct) auto

lemma route_rows_append: "route_rows (a @ b) = route_rows a @ route_rows b"
  by (induction a rule: route_rows.induct) auto

lemma route_rows_key: "(n, p, t) \<in> set (route_rows m) \<Longrightarrow> p \<in> fst ` set m"
  by (force simp: route_rows_iff)

lemma route_rows_Nil: "\<forall>e \<in> set m. snd e \<noteq> [] \<Longrightarrow> route_rows m = [] \<Longrightarrow> m = []"
  by (induction m rule: route_rows.induct) auto

lemma route_rows_sorted:
  "sorted_wrt (<) (map fst m) \<Longrightarrow> sorted_wrt (<) (map (fst \<circ> snd) (route_rows m))"
proof (induction m rule: route_rows.induct)
  case (3 p x xs rest)
  have "\<forall>row \<in> set (route_rows rest). p < fst (snd row)"
  proof
    fix row assume "row \<in> set (route_rows rest)"
    obtain n q t where row: "row = (n, q, t)" by (cases row) auto
    with \<open>row \<in> set (route_rows rest)\<close> have "q \<in> fst ` set rest"
      by (auto dest: route_rows_key)
    with 3(2) row show "p < fst (snd row)" by auto
  qed
  with 3 show ?case by auto
qed auto

lemma route_rows_distinct_names:
  "sorted_wrt (<) (map fst m) \<Longrightarrow>
   (\<forall>n p t. (n, p, t) \<in> set (route_rows m) \<longrightarrow> f n = Some p) \<Longrightarrow>
   distinct (map fst (route_rows m))"
proof (induction m rule: route_rows.induct)
  case (3 p x xs rest)
  have "r_name x \<notin> fst ` set (route_rows rest)"
  proof
    assume "r_name x \<in> fst ` set (route_rows rest)"
    then obtain q t where in_rest: "(r_name x, q, t) \<in> set (route_rows rest)" by auto
    with 3(3) have "f (r_name x) = Some q" by auto
    moreover from 3(3) have "f (r_name x) = Some p" by auto
    ultimately have "q = p" by simp
    with in_rest 3(2) show False by (auto dest!: route_rows_key)
  qed
  with 3 show ?case by auto
qed auto

lemma map_insert_fresh:
  "k \<notin> fst ` set m \<Longrightarrow> set (map_insert k v m) = insert (k, v) (set m)"
  by (induction k v m rule: map_insert.induct) (simp_all add: insert_commute)

lemma map_insert_keys: "fst ` set (map_insert k v m) = insert k (fst ` set m)"
  by (induction k v m rule: map_insert.induct) (simp_all add: insert_commute)

lemma map_insert_sorted:
  "sorted_wrt (<) (map fst m) \<Longrightarrow> sorted_wrt (<) (map fst (map_insert k v m))"
proof (induction m)
  case (Cons e m)
  obtain k' v' where e: "e = (k', v')" by (cases e)
  from Cons have "\<forall>q \<in> fst ` set (map_insert k v m). k' < q \<or> q = k"
    by (auto simp: e map_insert_keys)
  with Cons show ?case by (auto simp: e)
qed simp

lemma map_insert_last:
  "\<forall>q \<in> fst ` set m. q < k \<Longrightarrow> map_insert k v m = m @ [(k, v)]"
  by (induction m) auto

lemma map_erase_filter: "map_erase k m = filter (\<lambda>e. fst e \<noteq> k) m"
  by (induction m) auto

lemma map_erase_sorted:
  "sorted_wrt (<) (map fst m) \<Longrightarrow> sorted_wrt (<) (map fst (map_erase k m))"
  by (simp add: map_erase_filter sorted_wrt_map sorted_wrt_filter)

lemma sorted_keys_distinct: "sorted_wrt (<) (map fst m) \<Longrightarrow> distinct (map fst (m :: (nat \<times> 'v) list))"
  by (simp add: strict_sorted_iff)

lemma map_of_None_keys: "map_of m k = None \<longleftrightarrow> k \<notin> fst ` set m"
  by (simp add: map_of_eq_None_iff)

lemma route_rows_insert:
  "k \<notin> fst ` set m \<Longrightarrow>
   set (route_rows (map_insert k (x # xs) m)) = insert (r_name x, k, r_target x) (set (route_rows m))"
proof (rule set_eqI)
  fix row :: "string \<times> nat \<times> string"
  assume fresh: "k \<notin> fst ` set m"
  obtain n p t where row: "row = (n, p, t)" by (cases row) auto
  show "row \<in> set (route_rows (map_insert k (x # xs) m)) \<longleftrightarrow>
        row \<in> insert (r_name x, k, r_target x) (set (route_rows m))"
    unfolding row by (auto simp: route_rows_iff map_insert_fresh [OF fresh])
qed

lemma route_rows_erase:
  "route_rows (map_erase k m) = filter (\<lambda>row. fst (snd row) \<noteq> k) (route_rows m)"
  by (induction m rule: route_rows.induct) auto

lemma map_erase_keys: "fst ` set (map_erase k m) = fst ` set m - {k}"
  by (auto simp: map_erase_filter)

lemma map_erase_subset: "set (map_erase k m) \<subseteq> set m"
  by (auto simp: map_erase_filter)

subsection \<open>Environment manager and persistence\<close>

lemma build_replicas_length: "build_replicas b t W = Inr reps \<Longrightarrow> length reps = W"
  by (induction W arbitrary: reps) (auto split: sum.splits)

lemma build_replicas_Inr:
  "build_replicas b t W = Inr reps \<Longrightarrow> 0 < W \<Longrightarrow> \<exists>pred. b t = Inr pred"
  by (cases W) (auto split: sum.splits)

lemma build_replicas_known: "b t = Inr pred \<Longrightarrow> build_replicas b t W = Inr (replicate W pred)"
  by (induction W) auto

lemma build_replicas_unknown: "b t = Inl e \<Longrightarrow> 0 < W \<Longrightarrow> build_replicas b t W = Inl e"
  by (cases W) auto

lemma acquire_ok:
  assumes "em_ok em" and "0 < em_threads em" and "acquire t em = Inr (hs, em')"
  shows "length hs = em_threads em \<and> em_ok em' \<and> em_threads em' = em_threads em
         \<and> em_builder em' = em_builder em"
proof (cases "em_envs em t")
  case None
  with assms(3) obtain reps where
    reps: "build_replicas (em_builder em) t (em_threads em) = Inr reps"
    and hs: "hs = reps" and em': "em' = em\<lparr>em_envs := (em_envs em)(t \<mapsto> (1, reps))\<rparr>"
    by (auto simp: acquire_def split: sum.splits)
  from reps have "length reps = em_threads em" by (rule build_replicas_length)
  moreover from reps assms(2) have "\<exists>pred. em_builder em t = Inr pred"
    by (rule build_replicas_Inr)
  ultimately show ?thesis using assms(1) by (auto simp: hs em' em_ok_def)
next
  case (Some a)
  obtain refs reps where a: "a = (refs, reps)" by (cases a)
  with Some assms(3) have hs: "hs = reps"
    and em': "em' = em\<lparr>em_envs := (em_envs em)(t \<mapsto> (Suc refs, reps))\<rparr>"
    by (auto simp: acquire_def)
  from assms(1) Some a have "length reps = em_threads em \<and> (\<exists>pred. em_builder em t = Inr pred)"
    by (auto simp: em_ok_def)
  then show ?thesis using assms(1) by (auto simp: hs em' em_ok_def)
qed

lemma release_ok:
  "em_ok em \<Longrightarrow>
   em_ok (release t em) \<and> em_threads (release t em) = em_threads em
   \<and> em_builder (release t em) = em_builder em"
  by (auto simp: release_def em_ok_def split: option.splits)

lemma release_entry_ok:
  "em_ok em \<Longrightarrow>
   em_ok (release_entry entry em) \<and> em_threads (release_entry entry em) = em_threads em
   \<and> em_builder (release_entry entry em) = em_builder em"
  by (auto simp: release_entry_def release_ok split: option.splits list.splits)

lemma persist_Returned:
  "persist r w = Returned x w' \<Longrightarrow>
   x = (None, r) \<and> w_log w' = w_log w
   \<and> docs (w_store w') ROUTES_TABLE_NAME = Some (tableToJson r)
   \<and> set (faults (w_store w')) \<subseteq> set (faults (w_store w))"
  by (auto simp: persist_def dumpTableToStorage_def store_update_def store_write_def
           split: prod.splits option.splits list.splits if_splits)

lemma persist_not_Thrown: "persist r w \<noteq> Thrown msg w'"
  by (simp add: persist_def dumpTableToStorage_def split: prod.splits option.splits)

lemma persist_reliable:
  "reliable (w_store w) \<Longrightarrow> \<exists>w'. persist r w = Returned (None, r) w'"
  by (auto simp: persist_def dumpTableToStorage_def store_update_def store_write_def reliable_def
           split: prod.splits option.splits list.splits if_splits)

lemma c_int_key_bound: "nat (sint (p :: c_int)) < 2 ^ 31"
  using sint_lt [of p] by simp

lemma c_int_of_key: "p < 2 ^ 31 \<Longrightarrow> sint (of_nat p :: c_int) = int p"
  by (simp add: signed_take_bit_int_eq_self sint_uint take_bit_nat_eq_self unsigned_of_nat)

lemma make_routes_entry_ok:
  "n \<noteq> [] \<Longrightarrow> length hs = W \<Longrightarrow> p < 2 ^ 31 \<Longrightarrow> entry_ok W (p, make_routes n t p hs)"
  by (auto simp: entry_ok_def make_routes_def)

lemma make_routes_Cons:
  "hs \<noteq> [] \<Longrightarrow> \<exists>x xs. make_routes n t p hs = x # xs \<and> r_name x = n \<and> r_target x = t"
  by (cases hs) (auto simp: make_routes_def)

subsection \<open>The operations maintain the invariant\<close>

lemma inv_insert:
  assumes inv: "router_inv r"
    and n: "n \<noteq> []" and fresh_n: "m_namePriority r n = None"
    and fresh_p: "p \<notin> fst ` set (m_priorityRoute r)"
    and entry: "entry_ok (m_numThreads r) (p, x # xs)" and x: "r_name x = n"
    and em: "em_ok em'" "em_threads em' = m_numThreads r" "em_builder em' = m_builder r"
  shows "router_inv (r\<lparr>m_namePriority := (m_namePriority r)(n \<mapsto> p),
                         m_priorityRoute := map_insert p (x # xs) (m_priorityRoute r),
                         m_environmentManager := em'\<rparr>)"
proof -
  let ?tbl = "m_priorityRoute r"
  have rows: "set (route_rows (map_insert p (x # xs) ?tbl))
              = insert (n, p, r_target x) (set (route_rows ?tbl))"
    using route_rows_insert [OF fresh_p, of x xs] x by simp
  have old: "\<And>n' p'. m_namePriority r n' = Some p' \<longleftrightarrow>
                 (\<exists>t. (n', p', t) \<in> set (route_rows ?tbl))"
    using inv by (simp add: router_inv_def)
  have idx: "\<forall>n' p'. ((m_namePriority r)(n \<mapsto> p)) n' = Some p' \<longleftrightarrow>
               (\<exists>t. (n', p', t) \<in> set (route_rows (map_insert p (x # xs) ?tbl)))"
  proof (intro allI)
    fix n' p'
    show "((m_namePriority r)(n \<mapsto> p)) n' = Some p' \<longleftrightarrow>
               (\<exists>t. (n', p', t) \<in> set (route_rows (map_insert p (x # xs) ?tbl)))"
    proof (cases "n' = n")
      case True
      have "\<not> (\<exists>t. (n, p', t) \<in> set (route_rows ?tbl))"
        using old [of n p'] fresh_n by simp
      then show ?thesis using True by (auto simp: rows)
    next
      case False
      then show ?thesis using old [of n' p'] by (auto simp: rows)
    qed
  qed
  have "\<forall>e \<in> set (map_insert p (x # xs) ?tbl). entry_ok (m_numThreads r) e"
    using inv entry by (auto simp: map_insert_fresh [OF fresh_p] router_inv_def)
  moreover have "sorted_wrt (<) (map fst (map_insert p (x # xs) ?tbl))"
    using inv by (simp add: router_inv_def map_insert_sorted)
  ultimately show ?thesis
    using inv em idx by (simp add: router_inv_def)
qed

lemma rows_key_unique:
  assumes "sorted_wrt (<) (map fst m)"
    and "(n, p, t) \<in> set (route_rows m)" and "(n', p, t') \<in> set (route_rows m)"
  shows "n = n' \<and> t = t'"
proof -
  from assms(2) obtain x xs where a: "(p, x # xs) \<in> set m" "n = r_name x" "t = r_target x"
    by (auto simp: route_rows_iff)
  from assms(3) obtain y ys where b: "(p, y # ys) \<in> set m" "n' = r_name y" "t' = r_target y"
    by (auto simp: route_rows_iff)
  from assms(1) have "distinct (map fst m)" by (rule sorted_keys_distinct)
  from eq_key_imp_eq_value [OF this a(1) b(1)] have "x # xs = y # ys" .
  with a b show ?thesis by simp
qed

lemma inv_erase:
  assumes inv: "router_inv r"
    and known: "m_namePriority r n = Some p"
    and em: "em_ok em'" "em_threads em' = m_numThreads r" "em_builder em' = m_builder r"
  shows "router_inv (r\<lparr>m_namePriority := (m_namePriority r)(n := None),
                         m_priorityRoute := map_erase p (m_priorityRoute r),
                         m_environmentManager := em'\<rparr>)"
proof -
  let ?tbl = "m_priorityRoute r"
  have sorted: "sorted_wrt (<) (map fst ?tbl)" using inv by (simp add: router_inv_def)
  have old: "\<And>n' p'. m_namePriority r n' = Some p' \<longleftrightarrow>
                 (\<exists>t. (n', p', t) \<in> set (route_rows ?tbl))"
    using inv by (simp add: router_inv_def)
  from known old [of n p] obtain t where row: "(n, p, t) \<in> set (route_rows ?tbl)" by auto
  have idx: "\<forall>n' p'. ((m_namePriority r)(n := None)) n' = Some p' \<longleftrightarrow>
               (\<exists>t. (n', p', t) \<in> set (route_rows (map_erase p ?tbl)))"
  proof (intro allI)
    fix n' p'
    show "((m_namePriority r)(n := None)) n' = Some p' \<longleftrightarrow>
               (\<exists>t. (n', p', t) \<in> set (route_rows (map_erase p ?tbl)))"
    proof (cases "n' = n")
      case True
      have "\<And>t'. (n, p', t') \<in> set (route_rows ?tbl) \<Longrightarrow> p' = p"
        using old [of n p'] known by auto
      then show ?thesis using True by (auto simp: route_rows_erase)
    next
      case False
      have "\<And>t'. (n', p', t') \<in> set (route_rows ?tbl) \<Longrightarrow> p' \<noteq> p"
        using rows_key_unique [OF sorted row] False by auto
      then show ?thesis using False old [of n' p'] by (auto simp: route_rows_erase)
    qed
  qed
  have "\<forall>e \<in> set (map_erase p ?tbl). entry_ok (m_numThreads r) e"
    using inv map_erase_subset [of p ?tbl] by (auto simp: router_inv_def)
  moreover have "sorted_wrt (<) (map fst (map_erase p ?tbl))"
    using sorted by (rule map_erase_sorted)
  ultimately show ?thesis
    using inv em idx by (simp add: router_inv_def)
qed

lemma addRoute_inv:
  assumes inv: "router_inv r" and ret: "addRoute n t p r w = Returned (err, r') w'"
  shows "router_inv r' \<and> m_numThreads r' = m_numThreads r \<and> m_builder r' = m_builder r"
proof (cases "n = [] \<or> sint p < 0 \<or> m_namePriority r n \<noteq> None
              \<or> map_of (m_priorityRoute r) (nat (sint p)) \<noteq> None")
  case True
  with ret have "r' = r" by (auto simp: addRoute_def split: if_splits)
  with inv show ?thesis by simp
next
  case False
  note ok = False
  show ?thesis
  proof (cases "acquire t (m_environmentManager r)")
    case (Inl e)
    with ok ret have "r' = r" by (auto simp: addRoute_def)
    with inv show ?thesis by simp
  next
    case (Inr a)
    obtain hs em' where a: "a = (hs, em')" by (cases a)
    let ?r = "r\<lparr>m_namePriority := (m_namePriority r)(n \<mapsto> nat (sint p)),
                 m_priorityRoute := map_insert (nat (sint p)) (make_routes n t (nat (sint p)) hs)
                                      (m_priorityRoute r),
                 m_environmentManager := em'\<rparr>"
    from ok ret Inr a have "persist ?r w = Returned (err, r') w'"
      by (simp add: addRoute_def)
    then have r': "r' = ?r" by (auto dest: persist_Returned)
    from inv have W: "0 < em_threads (m_environmentManager r)"
      "em_threads (m_environmentManager r) = m_numThreads r"
      "em_builder (m_environmentManager r) = m_builder r" "em_ok (m_environmentManager r)"
      by (simp_all add: router_inv_def)
    from acquire_ok [OF W(4) W(1)] Inr a
    have em: "length hs = m_numThreads r" "em_ok em'" "em_threads em' = m_numThreads r"
      "em_builder em' = m_builder r"
      using W by auto
    from em(1) W have "hs \<noteq> []" by auto
    then obtain x xs where mk: "make_routes n t (nat (sint p)) hs = x # xs" "r_name x = n"
      using make_routes_Cons by blast
    from ok em(1) c_int_key_bound [of p]
    have "entry_ok (m_numThreads r) (nat (sint p), make_routes n t (nat (sint p)) hs)"
      by (intro make_routes_entry_ok) auto
    with mk have entry: "entry_ok (m_numThreads r) (nat (sint p), x # xs)" by simp
    from ok have fresh: "nat (sint p) \<notin> fst ` set (m_priorityRoute r)" "m_namePriority r n = None"
      "n \<noteq> []"
      by (simp_all add: map_of_None_keys)
    from inv_insert [OF inv fresh(3) fresh(2) fresh(1) entry mk(2) em(2) em(3) em(4)]
    show ?thesis by (simp add: r' mk)
  qed
qed

lemma removeRoute_inv:
  assumes inv: "router_inv r" and ret: "removeRoute n r w = Returned (err, r') w'"
  shows "router_inv r' \<and> m_numThreads r' = m_numThreads r \<and> m_builder r' = m_builder r"
proof (cases "m_namePriority r n")
  case None
  with ret have "r' = r" by (simp add: removeRoute_def)
  with inv show ?thesis by simp
next
  case (Some p)
  let ?em = "release_entry (map_of (m_priorityRoute r) p) (m_environmentManager r)"
  let ?r = "r\<lparr>m_namePriority := (m_namePriority r)(n := None),
               m_priorityRoute := map_erase p (m_priorityRoute r),
               m_environmentManager := ?em\<rparr>"
  from ret Some have "persist ?r w = Returned (err, r') w'" by (simp add: removeRoute_def)
  then have r': "r' = ?r" by (auto dest: persist_Returned)
  from inv have "em_ok (m_environmentManager r)"
    "em_threads (m_environmentManager r) = m_numThreads r"
    "em_builder (m_environmentManager r) = m_builder r"
    by (simp_all add: router_inv_def)
  with release_entry_ok [of "m_environmentManager r" "map_of (m_priorityRoute r) p"]
  have em: "em_ok ?em" "em_threads ?em = m_numThreads r" "em_builder ?em = m_builder r"
    by simp_all
  from inv_erase [OF inv Some em] show ?thesis by (simp add: r')
qed

lemma changeRoutePriority_inv:
  assumes inv: "router_inv r" and ret: "changeRoutePriority n p r w = Returned (err, r') w'"
  shows "router_inv r' \<and> m_numThreads r' = m_numThreads r \<and> m_builder r' = m_builder r"
proof (cases "sint p < 0 \<or> m_namePriority r n = None
              \<or> map_of (m_priorityRoute r) (nat (sint p)) \<noteq> None")
  case True
  with ret have "r' = r" by (auto simp: changeRoutePriority_def split: if_splits option.splits)
  with inv show ?thesis by simp
next
  case False
  then obtain old where old: "m_namePriority r n = Some old" by auto
  let ?tbl = "m_priorityRoute r"
  let ?e = "reprioritize (nat (sint p)) (map_of ?tbl old)"
  let ?r = "r\<lparr>m_namePriority := (m_namePriority r)(n \<mapsto> nat (sint p)),
               m_priorityRoute := map_insert (nat (sint p)) ?e (map_erase old ?tbl)\<rparr>"
  from ret False old have "persist ?r w = Returned (err, r') w'"
    by (simp add: changeRoutePriority_def)
  then have r': "r' = ?r" by (auto dest: persist_Returned)
  have sorted: "sorted_wrt (<) (map fst ?tbl)" using inv by (simp add: router_inv_def)
  from inv old obtain t where "(n, old, t) \<in> set (route_rows ?tbl)"
    by (auto simp: router_inv_def)
  then obtain x xs where entry: "(old, x # xs) \<in> set ?tbl" "r_name x = n"
    by (auto simp: route_rows_iff)
  from sorted entry(1) have lookup: "map_of ?tbl old = Some (x # xs)"
    by (simp add: sorted_keys_distinct)
  from inv entry(1) have "entry_ok (m_numThreads r) (old, x # xs)"
    by (auto simp: router_inv_def)
  then have ok_old: "length (x # xs) = m_numThreads r"
    and "\<exists>n' t'. n' \<noteq> [] \<and> (\<forall>y \<in> set (x # xs). r_name y = n' \<and> r_target y = t')"
    by (auto simp: entry_ok_def)
  then obtain n' t' where uni: "n' \<noteq> []" "\<forall>y \<in> set (x # xs). r_name y = n' \<and> r_target y = t'"
    by blast
  let ?x = "x\<lparr>r_priority := nat (sint p)\<rparr>"
  let ?xs = "map (\<lambda>y. y\<lparr>r_priority := nat (sint p)\<rparr>) xs"
  have e: "?e = ?x # ?xs" by (simp add: reprioritize_def lookup)
  have n: "n \<noteq> []" using uni entry(2) by auto
  have entry': "entry_ok (m_numThreads r) (nat (sint p), ?x # ?xs)"
    unfolding entry_ok_def using ok_old uni c_int_key_bound [of p] by auto
  let ?r1 = "r\<lparr>m_namePriority := (m_namePriority r)(n := None),
                m_priorityRoute := map_erase old ?tbl,
                m_environmentManager := m_environmentManager r\<rparr>"
  from inv have em: "em_ok (m_environmentManager r)"
    "em_threads (m_environmentManager r) = m_numThreads r"
    "em_builder (m_environmentManager r) = m_builder r"
    by (simp_all add: router_inv_def)
  have inv1: "router_inv ?r1" by (rule inv_erase [OF inv old em])
  from False have "nat (sint p) \<notin> fst ` set ?tbl" by (simp add: map_of_None_keys)
  then have fresh: "nat (sint p) \<notin> fst ` set (m_priorityRoute ?r1)" by (simp add: map_erase_keys)
  have "router_inv (?r1\<lparr>m_namePriority := (m_namePriority ?r1)(n \<mapsto> nat (sint p)),
                         m_priorityRoute := map_insert (nat (sint p)) (?x # ?xs) (m_priorityRoute ?r1),
                         m_environmentManager := m_environmentManager r\<rparr>)"
    by (rule inv_insert [OF inv1 n _ fresh]) (use entry' entry(2) em in simp_all)
  then show ?thesis by (simp add: r' e)
qed

lemma apply_operation_inv:
  "router_inv r \<Longrightarrow> apply_operation x r w = Returned (err, r') w' \<Longrightarrow>
   router_inv r' \<and> m_numThreads r' = m_numThreads r \<and> m_builder r' = m_builder r"
  by (cases x) (auto dest: addRoute_inv removeRoute_inv changeRoutePriority_inv)

lemma run_ops_inv:
  "router_inv r \<Longrightarrow> run_ops xs r w = Returned r' w' \<Longrightarrow>
   router_inv r' \<and> m_numThreads r' = m_numThreads r \<and> m_builder r' = m_builder r"
proof (induction xs arbitrary: r w)
  case Nil
  then show ?case by simp
next
  case (Cons x xs)
  from Cons.prems(2) obtain err r1 w1 where
    step: "apply_operation x r w = Returned (err, r1) w1" and rest: "run_ops xs r1 w1 = Returned r' w'"
    by (auto split: outcome.splits)
  from apply_operation_inv [OF Cons.prems(1) step] Cons.IH [OF _ rest]
  show ?case by simp
qed

lemma empty_router_inv: "0 < W \<Longrightarrow> router_inv (empty_router b W)"
  by (simp add: router_inv_def empty_router_def EnvironmentManager_def em_ok_def)

lemma router_inv_I1: "router_inv r \<Longrightarrow> I1 r"
  unfolding I1_def getRouteTable_def
  by (rule route_rows_distinct_names [where f = "m_namePriority r"])
     (auto simp: router_inv_def)

lemma router_inv_I3: "router_inv r \<Longrightarrow> I3 r"
  by (simp add: I3_def router_inv_def sorted_keys_distinct)

lemma router_inv_I2:
  assumes inv: "router_inv r"
  shows "I2 r"
proof -
  let ?tbl = "m_priorityRoute r"
  have idx: "\<And>n p. m_namePriority r n = Some p \<longleftrightarrow> (\<exists>t. (n, p, t) \<in> set (route_rows ?tbl))"
    using inv by (simp add: router_inv_def)
  have entries: "\<And>p rs. (p, rs) \<in> set ?tbl \<Longrightarrow> entry_ok (m_numThreads r) (p, rs)"
    using inv by (auto simp: router_inv_def)
  have W: "0 < m_numThreads r" using inv by (simp add: router_inv_def)
  have uniform: "\<And>p x xs. (p, x # xs) \<in> set ?tbl \<Longrightarrow>
                   \<forall>y \<in> set (x # xs). r_name y = r_name x \<and> r_priority y = p"
    using entries by (fastforce simp: entry_ok_def)
  have a: "\<forall>name priority. m_namePriority r name = Some priority \<longrightarrow>
        (\<exists>rs. (priority, rs) \<in> set ?tbl \<and> rs \<noteq> [] \<and>
              (\<forall>x \<in> set rs. r_name x = name \<and> r_priority x = priority))"
  proof (intro allI impI)
    fix name priority
    assume "m_namePriority r name = Some priority"
    then obtain x xs where e: "(priority, x # xs) \<in> set ?tbl" "name = r_name x"
      by (auto simp: idx route_rows_iff)
    from uniform [OF e(1)] e show "\<exists>rs. (priority, rs) \<in> set ?tbl \<and> rs \<noteq> [] \<and>
              (\<forall>x \<in> set rs. r_name x = name \<and> r_priority x = priority)"
      by (intro exI [of _ "x # xs"]) simp
  qed
  have b: "\<forall>(priority, rs) \<in> set ?tbl.
          rs \<noteq> [] \<and>
          (\<exists>name. m_namePriority r name = Some priority \<and>
                  (\<forall>x \<in> set rs. r_name x = name \<and> r_priority x = priority))"
  proof (clarify)
    fix priority rs
    assume e: "(priority, rs) \<in> set ?tbl"
    from entries [OF e] W have "rs \<noteq> []" by (auto simp: entry_ok_def)
    then obtain x xs where rs: "rs = x # xs" by (cases rs) auto
    from e rs have "(r_name x, priority, r_target x) \<in> set (route_rows ?tbl)"
      by (auto simp: route_rows_iff)
    then have "m_namePriority r (r_name x) = Some priority" by (auto simp: idx)
    with uniform [of priority x xs] e rs
    show "rs \<noteq> [] \<and>
          (\<exists>name. m_namePriority r name = Some priority \<and>
                  (\<forall>x \<in> set rs. r_name x = name \<and> r_priority x = priority))"
      by (intro conjI exI [of _ "r_name x"]) simp_all
  qed
  from a b show ?thesis unfolding I2_def by simp
qed

subsection \<open>On a store whose writes do not fail, the operations return\<close>

lemma addRoute_returns:
  "reliable (w_store w) \<Longrightarrow>
   \<exists>err r' w'. addRoute n t p r w = Returned (err, r') w' \<and> reliable (w_store w')"
  using persist_reliable persist_Returned
  by (fastforce simp: addRoute_def reliable_def split: sum.splits prod.splits)

lemma removeRoute_returns:
  "reliable (w_store w) \<Longrightarrow>
   \<exists>err r' w'. removeRoute n r w = Returned (err, r') w' \<and> reliable (w_store w')"
  using persist_reliable persist_Returned
  by (fastforce simp: removeRoute_def reliable_def split: option.splits)

lemma changeRoutePriority_returns:
  "reliable (w_store w) \<Longrightarrow>
   \<exists>err r' w'. changeRoutePriority n p r w = Returned (err, r') w' \<and> reliable (w_store w')"
  using persist_reliable persist_Returned
  by (fastforce simp: changeRoutePriority_def reliable_def split: option.splits)

lemma apply_operation_returns:
  "reliable (w_store w) \<Longrightarrow>
   \<exists>err r' w'. apply_operation x r w = Returned (err, r') w' \<and> reliable (w_store w')"
  by (cases x) (simp_all add: addRoute_returns removeRoute_returns changeRoutePriority_returns)

lemma run_ops_returns:
  "reliable (w_store w) \<Longrightarrow>
   \<exists>r' w'. run_ops xs r w = Returned r' w' \<and> reliable (w_store w')"
proof (induction xs arbitrary: r w)
  case Nil
  then show ?case by simp
next
  case (Cons x xs)
  from apply_operation_returns [OF Cons.prems, of x r] obtain err r1 w1 where
    step: "apply_operation x r w = Returned (err, r1) w1" and rel: "reliable (w_store w1)"
    by blast
  from Cons.IH [OF rel, of r1] show ?case by (simp add: step)
qed

lemma store_of_reliable: "reliable (store_of kvs [])"
  by (simp add: reliable_def store_of_def)

subsection \<open>Evaluation of concrete instances\<close>

lemmas eval_defs =
  three_routes_def mixed_ops_def empty_router_def open_builder_def no_builder_def only_TA_def
  quiet_world_def store_of_def addRoute_def removeRoute_def changeRoutePriority_def persist_def
  dumpTableToStorage_def store_update_def store_add_def store_write_def store_get_def
  acquire_def release_def release_entry_def reprioritize_def EnvironmentManager_def
  make_routes_def getRouteTable_def tableToJson_def row_json_def log_msg_def
  ROUTES_TABLE_NAME_def JSON_PATH_NAME_def JSON_PATH_PRIORITY_def JSON_PATH_TARGET_def
  getArray_def getString_def getInt_def json_at_def

section \<open>Invariants of the route table\<close>

text \<open>
  C2. Start from the empty table of a router with at least one worker and run any
  sequence of \<open>addRoute\<close>, \<open>removeRoute\<close> and \<open>changeRoutePriority\<close> calls (a call
  that answers an error changes nothing). In the router reached, names are unique (I1),
  the name index and the priority index describe the same routes (I2), and no priority is
  used twice (I3).
\<close>

theorem table_invariants_after_operations:
  assumes "0 < W" and "run_ops ops (empty_router b W) w = Returned r w'"
  shows "I1 r \<and> I2 r \<and> I3 r"
proof -
  from assms(1) have "router_inv (empty_router b W)" by (rule empty_router_inv)
  from run_ops_inv [OF this assms(2)] have "router_inv r" by simp
  then show ?thesis by (simp add: router_inv_I1 router_inv_I2 router_inv_I3)
qed

theorem table_invariants_after_operations_witness:
  "(0::nat) < 1 \<and>
   (case run_ops mixed_ops (empty_router open_builder 1) (quiet_world (store_of [] [])) of
      Returned r w' \<Rightarrow>
        getRouteTable r = [(''rB'', 0, ''TB''), (''rA'', 5, ''TA'')] \<and> I1 r \<and> I2 r \<and> I3 r
    | Thrown msg w' \<Rightarrow> False
    | Exited w' \<Rightarrow> False)"
proof -
  have "reliable (w_store (quiet_world (store_of [] [])))"
    by (simp add: quiet_world_def store_of_reliable)
  from run_ops_returns [OF this] obtain r w' where
    ev: "run_ops mixed_ops (empty_router open_builder 1) (quiet_world (store_of [] [])) = Returned r w'"
    by blast
  then have rows: "getRouteTable r = [(''rB'', 0, ''TB''), (''rA'', 5, ''TA'')]"
    by (auto simp: eval_defs)
  from table_invariants_after_operations [OF _ ev] have "I1 r \<and> I2 r \<and> I3 r" by simp
  with rows show ?thesis unfolding ev by simp
qed

section \<open>Construction checks\<close>

lemma addRoute_not_Thrown: "addRoute n t p r w \<noteq> Thrown msg w'"
  by (simp add: addRoute_def persist_not_Thrown split: sum.splits prod.splits)

lemma load_routes_Thrown:
  "load_routes table r w = Thrown msg w' \<Longrightarrow>
   msg = ''Router: Can't get routes table from store. Invalid table format''"
proof (induction table arbitrary: r w)
  case Nil
  then show ?case by simp
next
  case (Cons j table)
  then show ?case
    by (auto simp: addRoute_not_Thrown split: option.splits outcome.splits prod.splits)
qed

text \<open>
  C6. A thread count of zero makes the constructor throw, and so does a null builder;
  with at least one thread and a builder, the constructor throws neither of the two
  configuration errors.
\<close>

theorem Router_rejects_bad_configuration:
  "Router builder 0 w = Thrown ''Router: The number of threads must be greater than 0.'' w
   \<and> (0 < threads \<longrightarrow> Router None threads w = Thrown ''Router: Builder can't be null.'' w)
   \<and> (0 < threads \<longrightarrow>
        (\<forall>w'. Router (Some b) threads w \<noteq>
                Thrown ''Router: The number of threads must be greater than 0.'' w')
        \<and> (\<forall>w'. Router (Some b) threads w \<noteq> Thrown ''Router: Builder can't be null.'' w'))"
  by (auto simp: Router_def split: sum.splits option.splits outcome.splits dest: load_routes_Thrown)

theorem Router_rejects_bad_configuration_witness:
  "Router (Some no_builder) 0 (quiet_world (store_of [] []))
     = Thrown ''Router: The number of threads must be greater than 0.''
         (quiet_world (store_of [] []))
   \<and> Router None 1 (quiet_world (store_of [] []))
     = Thrown ''Router: Builder can't be null.'' (quiet_world (store_of [] []))
   \<and> Router (Some no_builder) 1 (quiet_world (store_of [] [])) \<noteq>
       Thrown ''Router: The number of threads must be greater than 0.''
         (quiet_world (store_of [] []))
   \<and> Router (Some no_builder) 1 (quiet_world (store_of [] [])) \<noteq>
       Thrown ''Router: Builder can't be null.'' (quiet_world (store_of [] []))"
  using Router_rejects_bad_configuration
          [of "Some no_builder" "quiet_world (store_of [] [])" 1 no_builder]
  by simp

subsection \<open>What a constructed router satisfies\<close>

lemma load_routes_inv:
  "router_inv r \<Longrightarrow> load_routes table r w = Returned r' w' \<Longrightarrow>
   router_inv r' \<and> m_numThreads r' = m_numThreads r \<and> m_builder r' = m_builder r"
proof (induction table arbitrary: r w)
  case Nil
  then show ?case by simp
next
  case (Cons j table)
  from Cons.prems(2) obtain name priority target err r1 w1 w2 where
    step: "addRoute name target priority r w = Returned (err, r1) w1"
    and rest: "load_routes table r1 w2 = Returned r' w'"
    by (auto split: option.splits outcome.splits prod.splits)
  from addRoute_inv [OF Cons.prems(1) step] Cons.IH [OF _ rest]
  show ?case by simp
qed

lemma Router_Returned:
  assumes "Router builder W w = Returned r w'"
  shows "0 < W \<and> builder = Some (m_builder r) \<and> router_inv r \<and> m_numThreads r = W"
proof -
  from assms have W: "0 < W" by (auto simp: Router_def split: if_splits)
  from assms W obtain b where b: "builder = Some b"
    by (cases builder) (auto simp: Router_def)
  have inv0: "router_inv (empty_router b W)" using W by (rule empty_router_inv)
  show ?thesis
  proof (cases "store_get (w_store w) ROUTES_TABLE_NAME")
    case (Inl e)
    with assms W b have "r = empty_router b W" by (simp add: Router_def)
    with inv0 W b show ?thesis by (simp add: empty_router_def)
  next
    case (Inr doc)
    with assms W b obtain table w1 where "load_routes table (empty_router b W) w = Returned r w1"
      by (auto simp: Router_def split: option.splits outcome.splits)
    from load_routes_inv [OF inv0 this] W b show ?thesis by (simp add: empty_router_def)
  qed
qed

section \<open>Start-up without a stored catalog\<close>

text \<open>
  C9. When the store holds nothing under \<open>internal/router_table/0\<close>, the constructor
  issues one write of the empty JSON array under that key and returns a router with an
  empty route table; the key then holds the empty array unless the store refuses the write.
\<close>

theorem Router_creates_missing_catalog:
  assumes "docs (w_store w) ROUTES_TABLE_NAME = None" and "0 < W"
  shows "\<exists>w'. Router (Some b) W w = Returned (empty_router b W) w'
           \<and> getRouteTable (empty_router b W) = []
           \<and> w_store w' = snd (store_add ROUTES_TABLE_NAME (JArray []) (w_store w))
           \<and> (accepts_write (w_store w) \<longrightarrow>
                docs (w_store w') ROUTES_TABLE_NAME = Some (JArray []))"
  using assms
  by (auto simp: Router_def store_get_def getRouteTable_def empty_router_def store_add_def
        store_write_def accepts_write_def log_msg_def split: list.splits)

theorem Router_creates_missing_catalog_witness:
  "docs (w_store (quiet_world (store_of [] []))) ROUTES_TABLE_NAME = None \<and> (0::nat) < 1 \<and>
   (\<exists>w'. Router (Some open_builder) 1 (quiet_world (store_of [] []))
            = Returned (empty_router open_builder 1) w'
          \<and> getRouteTable (empty_router open_builder 1) = []
          \<and> docs (w_store w') ROUTES_TABLE_NAME = Some (JArray []))"
proof -
  have a: "docs (w_store (quiet_world (store_of [] []))) ROUTES_TABLE_NAME = None"
    by (simp add: quiet_world_def store_of_def)
  have b: "accepts_write (w_store (quiet_world (store_of [] [])))"
    by (simp add: quiet_world_def store_of_def accepts_write_def)
  from Router_creates_missing_catalog [OF a, of 1 open_builder] a b show ?thesis by auto
qed

section \<open>Start-up with a corrupt catalog\<close>






section \<open>Failed catalog writes\<close>

lemma persist_cases:
  "persist r w =
     (if fst (store_update ROUTES_TABLE_NAME (tableToJson r) (w_store w)) = None
      then Returned (None, r)
             (w\<lparr>w_store := snd (store_update ROUTES_TABLE_NAME (tableToJson r) (w_store w))\<rparr>)
      else Exited (log_msg Err ''Router: Error updating routes table: {}''
                     [message (the (fst (store_update ROUTES_TABLE_NAME (tableToJson r) (w_store w))))]
                     (w\<lparr>w_store := snd (store_update ROUTES_TABLE_NAME (tableToJson r)
                                          (w_store w))\<rparr>)))"
  by (auto simp: persist_def dumpTableToStorage_def split: prod.splits option.splits)

lemma apply_operation_shape:
  "(\<exists>e. \<forall>w. apply_operation x r w = Returned (Some e, r) w)
   \<or> (\<exists>r'. \<forall>w. apply_operation x r w = persist r' w)"
proof (cases x)
  case (AddRoute n t p)
  show ?thesis
  proof (cases "acquire t (m_environmentManager r)")
    case (Inl e)
    then show ?thesis by (auto simp: AddRoute addRoute_def)
  next
    case (Inr a)
    then show ?thesis by (cases a) (auto simp: AddRoute addRoute_def)
  qed
next
  case (RemoveRoute n)
  then show ?thesis by (cases "m_namePriority r n") (auto simp: removeRoute_def)
next
  case (ChangeRoutePriority n p)
  then show ?thesis
    by (cases "m_namePriority r n") (auto simp: changeRoutePriority_def)
qed

lemma store_update_faulty:
  "faults st = True # fs \<Longrightarrow> store_update k v st = (Some PersistWriteFailure, st\<lparr>faults := fs\<rparr>)"
  by (simp add: store_update_def store_write_def)

lemma store_update_sound:
  "fst (store_update k v st) = None \<Longrightarrow> docs (snd (store_update k v st)) k = Some v"
  by (auto simp: store_update_def store_write_def split: list.splits if_splits)

lemma store_update_no_faults:
  "faults st = [] \<Longrightarrow> fst (store_update k v st) = None"
  by (simp add: store_update_def store_write_def)

text \<open>
  C5. When the store answers an error to the write of the catalog, \<open>dumpTableToStorage\<close>
  ends the process; it returns only after a write that succeeded, and then the store holds
  the serialized table. For the operations that persist: every call either answers an error
  and has changed nothing, or has mutated the table and returns success with the stored
  catalog equal to the table in memory, or has mutated the table, met a failed write and
  ended the process. In particular a call that succeeds when the store takes the write ends
  the process, after logging the error, when the write fails; no call returns success then.
\<close>

theorem dumpTableToStorage_fatal_on_store_failure:
  "(fst (store_update ROUTES_TABLE_NAME (tableToJson r) (w_store w)) \<noteq> None \<longrightarrow>
      (\<exists>w'. dumpTableToStorage r w = Exited w'))
   \<and> (\<forall>u w'. dumpTableToStorage r w = Returned u w' \<longrightarrow>
         fst (store_update ROUTES_TABLE_NAME (tableToJson r) (w_store w)) = None
         \<and> docs (w_store w') ROUTES_TABLE_NAME = Some (tableToJson r))
   \<and> (\<forall>err r' w'. apply_operation x r w = Returned (err, r') w' \<longrightarrow>
         (err = None \<longrightarrow> docs (w_store w') ROUTES_TABLE_NAME = Some (tableToJson r'))
         \<and> (err \<noteq> None \<longrightarrow> r' = r \<and> w' = w))
   \<and> (\<forall>fs r' w'. faults (w_store w) = True # fs \<longrightarrow>
         apply_operation x r w \<noteq> Returned (None, r') w')
   \<and> ((\<exists>e. apply_operation x r w = Returned (Some e, r) w)
       \<or> (\<exists>r' w'. apply_operation x r w = Returned (None, r') w'
             \<and> fst (store_update ROUTES_TABLE_NAME (tableToJson r') (w_store w)) = None
             \<and> docs (w_store w') ROUTES_TABLE_NAME = Some (tableToJson r'))
       \<or> (\<exists>r' w'. apply_operation x r w = Exited w'
             \<and> fst (store_update ROUTES_TABLE_NAME (tableToJson r') (w_store w)) \<noteq> None))
   \<and> (\<forall>fs r' w1. faults (w_store w) = True # fs
          \<and> apply_operation x r (without_faults w) = Returned (None, r') w1 \<longrightarrow>
          apply_operation x r w
            = Exited (log_msg Err ''Router: Error updating routes table: {}''
                        [message PersistWriteFailure]
                        (w\<lparr>w_store := (w_store w)\<lparr>faults := fs\<rparr>\<rparr>)))"
proof -
  have dump1: "fst (store_update ROUTES_TABLE_NAME (tableToJson r) (w_store w)) \<noteq> None \<longrightarrow>
      (\<exists>w'. dumpTableToStorage r w = Exited w')"
    by (auto simp: dumpTableToStorage_def split: prod.splits option.splits)
  have dump2: "\<forall>u w'. dumpTableToStorage r w = Returned u w' \<longrightarrow>
         fst (store_update ROUTES_TABLE_NAME (tableToJson r) (w_store w)) = None
         \<and> docs (w_store w') ROUTES_TABLE_NAME = Some (tableToJson r)"
    using store_update_sound [of ROUTES_TABLE_NAME "tableToJson r" "w_store w"]
    by (auto simp: dumpTableToStorage_def split: prod.splits option.splits)
  from apply_operation_shape [of x r]
  consider (refused) e where "\<forall>w. apply_operation x r w = Returned (Some e, r) w"
    | (mutated) r' where "\<forall>w. apply_operation x r w = persist r' w"
    by blast
  then have ops: "(\<forall>err r' w'. apply_operation x r w = Returned (err, r') w' \<longrightarrow>
         (err = None \<longrightarrow> docs (w_store w') ROUTES_TABLE_NAME = Some (tableToJson r'))
         \<and> (err \<noteq> None \<longrightarrow> r' = r \<and> w' = w))
   \<and> (\<forall>fs r' w'. faults (w_store w) = True # fs \<longrightarrow>
         apply_operation x r w \<noteq> Returned (None, r') w')
   \<and> ((\<exists>e. apply_operation x r w = Returned (Some e, r) w)
       \<or> (\<exists>r' w'. apply_operation x r w = Returned (None, r') w'
             \<and> fst (store_update ROUTES_TABLE_NAME (tableToJson r') (w_store w)) = None
             \<and> docs (w_store w') ROUTES_TABLE_NAME = Some (tableToJson r'))
       \<or> (\<exists>r' w'. apply_operation x r w = Exited w'
             \<and> fst (store_update ROUTES_TABLE_NAME (tableToJson r') (w_store w)) \<noteq> None))
   \<and> (\<forall>fs r' w1. faults (w_store w) = True # fs
          \<and> apply_operation x r (without_faults w) = Returned (None, r') w1 \<longrightarrow>
          apply_operation x r w
            = Exited (log_msg Err ''Router: Error updating routes table: {}''
                        [message PersistWriteFailure]
                        (w\<lparr>w_store := (w_store w)\<lparr>faults := fs\<rparr>\<rparr>)))"
  proof cases
    case refused
    then show ?thesis by simp
  next
    case mutated
    let ?u = "store_update ROUTES_TABLE_NAME (tableToJson r') (w_store w)"
    show ?thesis
    proof (cases "fst ?u = None")
      case True
      have "apply_operation x r w = Returned (None, r') (w\<lparr>w_store := snd ?u\<rparr>)"
        using mutated True by (simp add: persist_cases)
      moreover have "docs (snd ?u) ROUTES_TABLE_NAME = Some (tableToJson r')"
        using True by (rule store_update_sound)
      moreover have "faults (w_store w) \<noteq> True # fs" for fs
        using True by (auto simp: store_update_faulty)
      ultimately show ?thesis using True by auto
    next
      case False
      have ex: "apply_operation x r w
          = Exited (log_msg Err ''Router: Error updating routes table: {}''
                      [message (the (fst ?u))] (w\<lparr>w_store := snd ?u\<rparr>))"
        using mutated False by (simp add: persist_cases)
      have exact: "apply_operation x r w
            = Exited (log_msg Err ''Router: Error updating routes table: {}''
                        [message PersistWriteFailure]
                        (w\<lparr>w_store := (w_store w)\<lparr>faults := fs\<rparr>\<rparr>))"
        if "faults (w_store w) = True # fs" for fs
        using ex store_update_faulty [OF that, of ROUTES_TABLE_NAME "tableToJson r'"] by simp
      from ex False exact show ?thesis by auto
    qed
  qed
  from dump1 dump2 ops show ?thesis by blast
qed

theorem dumpTableToStorage_fatal_on_store_failure_witness:
  "faults (w_store (quiet_world failing_store)) = [True]
   \<and> (\<exists>r' w1. apply_operation (AddRoute ''r1'' ''TA'' 1) (empty_router open_builder 1)
                 (without_faults (quiet_world failing_store)) = Returned (None, r') w1
               \<and> getRouteTable r' = [(''r1'', 1, ''TA'')])
   \<and> apply_operation (AddRoute ''r1'' ''TA'' 1) (empty_router open_builder 1)
        (quiet_world failing_store) = Exited written_off"
proof -
  have f: "faults (w_store (quiet_world failing_store)) = [True]"
    by (simp add: quiet_world_def failing_store_def store_of_def)
  obtain r' w1 where ok: "apply_operation (AddRoute ''r1'' ''TA'' 1) (empty_router open_builder 1)
                 (without_faults (quiet_world failing_store)) = Returned (None, r') w1"
    by (simp add: without_faults_def failing_store_def eval_defs)
  then have rows: "getRouteTable r' = [(''r1'', 1, ''TA'')]"
    by (auto simp: without_faults_def failing_store_def eval_defs)
  from dumpTableToStorage_fatal_on_store_failure
         [of "empty_router open_builder 1" "quiet_world failing_store" "AddRoute ''r1'' ''TA'' 1"]
    f ok
  have "apply_operation (AddRoute ''r1'' ''TA'' 1) (empty_router open_builder 1)
          (quiet_world failing_store)
        = Exited (log_msg Err ''Router: Error updating routes table: {}''
                    [message PersistWriteFailure]
                    (quiet_world failing_store
                       \<lparr>w_store := (w_store (quiet_world failing_store))\<lparr>faults := []\<rparr>\<rparr>))"
    by blast
  then have "apply_operation (AddRoute ''r1'' ''TA'' 1) (empty_router open_builder 1)
        (quiet_world failing_store) = Exited written_off"
    by (simp add: written_off_def quiet_world_def failing_store_def store_of_def log_msg_def)
  with f ok rows show ?thesis by blast
qed

section \<open>Worker count\<close>

text \<open>
  C10. A router constructed for \<open>W\<close> threads has \<open>m_numThreads = W\<close> and an environment
  manager made for \<open>W\<close>; every route vector and every live environment has \<open>W\<close>
  replicas. Constructed without a thread count, all of this holds with \<open>W = 1\<close>.
\<close>

theorem Router_thread_count:
  "(Router builder W w = Returned r w' \<longrightarrow>
      m_numThreads r = W \<and> em_threads (m_environmentManager r) = W
      \<and> (\<forall>(p, rs) \<in> set (m_priorityRoute r). length rs = W)
      \<and> (\<forall>t refs reps. em_envs (m_environmentManager r) t = Some (refs, reps) \<longrightarrow>
             length reps = W))
   \<and> (Router_default_threads builder w = Returned r1 w1 \<longrightarrow>
      m_numThreads r1 = 1 \<and> em_threads (m_environmentManager r1) = 1
      \<and> (\<forall>(p, rs) \<in> set (m_priorityRoute r1). length rs = 1)
      \<and> (\<forall>t refs reps. em_envs (m_environmentManager r1) t = Some (refs, reps) \<longrightarrow>
             length reps = 1))"
proof -
  have main: "m_numThreads r = W \<and> em_threads (m_environmentManager r) = W
      \<and> (\<forall>(p, rs) \<in> set (m_priorityRoute r). length rs = W)
      \<and> (\<forall>t refs reps. em_envs (m_environmentManager r) t = Some (refs, reps) \<longrightarrow>
             length reps = W)"
    if "Router builder W w = Returned r w'" for W r w'
  proof -
    from Router_Returned [OF that] have inv: "router_inv r" and W: "m_numThreads r = W"
      by simp_all
    from inv have "\<forall>e \<in> set (m_priorityRoute r). entry_ok (m_numThreads r) e"
      and "em_ok (m_environmentManager r)"
      and "em_threads (m_environmentManager r) = m_numThreads r"
      by (simp_all add: router_inv_def)
    then show ?thesis using W by (fastforce simp: entry_ok_def em_ok_def)
  qed
  show ?thesis
    using main [of W r w'] main [of 1 r1 w1] by (simp add: Router_default_threads_def)
qed

theorem Router_thread_count_witness:
  "(case Router (Some open_builder) 2 (quiet_world one_route_store) of
      Returned r w' \<Rightarrow>
        getRouteTable r = [(''r1'', 7, ''TA'')] \<and> m_numThreads r = 2
        \<and> em_threads (m_environmentManager r) = 2
        \<and> map (length \<circ> snd) (m_priorityRoute r) = [2]
    | Thrown msg w' \<Rightarrow> False
    | Exited w' \<Rightarrow> False)
   \<and> (case Router_default_threads (Some open_builder) (quiet_world one_route_store) of
      Returned r w' \<Rightarrow>
        getRouteTable r = [(''r1'', 7, ''TA'')] \<and> m_numThreads r = 1
        \<and> em_threads (m_environmentManager r) = 1
        \<and> map (length \<circ> snd) (m_priorityRoute r) = [1]
    | Thrown msg w' \<Rightarrow> False
    | Exited w' \<Rightarrow> False)"
proof -
  obtain r w' where ev: "Router (Some open_builder) 2 (quiet_world one_route_store) = Returned r w'"
    by (simp add: Router_def one_route_store_def eval_defs eval_nat_numeral)
  obtain r1 w1 where ev1:
    "Router_default_threads (Some open_builder) (quiet_world one_route_store) = Returned r1 w1"
    by (simp add: Router_default_threads_def Router_def one_route_store_def eval_defs)
  from ev have rows: "getRouteTable r = [(''r1'', 7, ''TA'')]"
    "map (length \<circ> snd) (m_priorityRoute r) = [2]"
    by (auto simp: Router_def one_route_store_def eval_defs eval_nat_numeral)
  from ev1 have rows1: "getRouteTable r1 = [(''r1'', 7, ''TA'')]"
    "map (length \<circ> snd) (m_priorityRoute r1) = [1]"
    by (auto simp: Router_default_threads_def Router_def one_route_store_def eval_defs)
  from Router_thread_count [of "Some open_builder" 2 "quiet_world one_route_store" r w' r1 w1]
    ev ev1 rows rows1
  show ?thesis by simp
qed

section \<open>Dispatch\<close>

lemma select_route_Some:
  "select_route i ev m = Some (p, x) \<Longrightarrow>
   \<exists>rs. (p, rs) \<in> set m \<and> route_matches i ev (p, rs) \<and> x = rs ! i"
  by (induction i ev m rule: select_route.induct)
     (auto simp: route_matches_def split: if_splits)

lemma select_route_None:
  "select_route i ev m = None \<longleftrightarrow> (\<forall>e \<in> set m. \<not> route_matches i ev e)"
  by (induction i ev m rule: select_route.induct) (auto simp: route_matches_def)

lemma select_route_least:
  "sorted_wrt (<) (map fst m) \<Longrightarrow> select_route i ev m = Some (p, x) \<Longrightarrow>
   (q, qs) \<in> set m \<Longrightarrow> route_matches i ev (q, qs) \<Longrightarrow> p \<le> q"
proof (induction i ev m rule: select_route.induct)
  case (1 i ev)
  then show ?case by simp
next
  case (2 i ev p' rs rest)
  show ?case
  proof (cases "route_matches i ev (p', rs)")
    case True
    with 2(3) have "p = p'" by (simp add: route_matches_def)
    with 2(2,4) show ?thesis by auto
  next
    case False
    with 2(3) have sel: "select_route i ev rest = Some (p, x)"
      by (auto simp: route_matches_def split: if_splits)
    from False 2(4,5) have "(q, qs) \<in> set rest" by auto
    with 2(1) False 2(2) sel 2(5) show ?thesis by (simp add: route_matches_def)
  qed
qed

text \<open>
  C1, as the dispatcher has it. On a table in ascending priority order, a worker makes at
  most one \<open>ingest\<close> call per event, and none exactly when no route matches. When a
  route \<open>A\<close> matches, the call goes to the environment of the matching route of least
  priority, whose priority is at most that of \<open>A\<close>: to \<open>A\<close> itself when no route
  of lower priority matches, and never through a matching route \<open>B\<close> of higher priority.
\<close>

theorem dispatch_first_match:
  assumes sorted: "sorted_wrt (<) (map fst (m_priorityRoute r))"
  shows "length (dispatch i ev r) \<le> 1
   \<and> (dispatch i ev r = [] \<longleftrightarrow> (\<forall>e \<in> set (m_priorityRoute r). \<not> route_matches i ev e))
   \<and> (\<forall>pA rsA. (pA, rsA) \<in> set (m_priorityRoute r) \<and> route_matches i ev (pA, rsA) \<longrightarrow>
         (\<exists>p rs. (p, rs) \<in> set (m_priorityRoute r) \<and> route_matches i ev (p, rs) \<and> p \<le> pA
                 \<and> (\<forall>(q, qs) \<in> set (m_priorityRoute r). route_matches i ev (q, qs) \<longrightarrow> p \<le> q)
                 \<and> select_route i ev (m_priorityRoute r) = Some (p, rs ! i)
                 \<and> dispatch i ev r = [(r_target (rs ! i), i, ev)]))
   \<and> (\<forall>pA rsA. (pA, rsA) \<in> set (m_priorityRoute r) \<and> route_matches i ev (pA, rsA)
         \<and> (\<forall>(q, qs) \<in> set (m_priorityRoute r). q < pA \<longrightarrow> \<not> route_matches i ev (q, qs)) \<longrightarrow>
         dispatch i ev r = [(r_target (rsA ! i), i, ev)])
   \<and> (\<forall>pA rsA pB rsB. (pA, rsA) \<in> set (m_priorityRoute r) \<and> route_matches i ev (pA, rsA)
         \<and> (pB, rsB) \<in> set (m_priorityRoute r) \<and> route_matches i ev (pB, rsB) \<and> pA < pB \<longrightarrow>
         (\<forall>x. select_route i ev (m_priorityRoute r) \<noteq> Some (pB, x)))"
proof -
  let ?m = "m_priorityRoute r"
  have once: "length (dispatch i ev r) \<le> 1"
    by (simp add: dispatch_def split: option.splits)
  have none: "dispatch i ev r = [] \<longleftrightarrow> (\<forall>e \<in> set ?m. \<not> route_matches i ev e)"
    using select_route_None [of i ev ?m] by (auto simp: dispatch_def split: option.splits)
  have first: "\<exists>p rs. (p, rs) \<in> set ?m \<and> route_matches i ev (p, rs) \<and> p \<le> pA
                 \<and> (\<forall>(q, qs) \<in> set ?m. route_matches i ev (q, qs) \<longrightarrow> p \<le> q)
                 \<and> select_route i ev ?m = Some (p, rs ! i)
                 \<and> dispatch i ev r = [(r_target (rs ! i), i, ev)]"
    if A: "(pA, rsA) \<in> set ?m" "route_matches i ev (pA, rsA)" for pA rsA
  proof -
    from A have "select_route i ev ?m \<noteq> None" by (auto simp: select_route_None)
    then obtain p x where sel: "select_route i ev ?m = Some (p, x)" by auto
    from select_route_Some [OF sel] obtain rs where
      rs: "(p, rs) \<in> set ?m" "route_matches i ev (p, rs)" "x = rs ! i" by blast
    have least: "\<forall>(q, qs) \<in> set ?m. route_matches i ev (q, qs) \<longrightarrow> p \<le> q"
      using select_route_least [OF sorted sel] by auto
    with A have "p \<le> pA" by auto
    with rs least sel show ?thesis by (auto simp: dispatch_def)
  qed
  have own: "dispatch i ev r = [(r_target (rsA ! i), i, ev)]"
    if A: "(pA, rsA) \<in> set ?m" "route_matches i ev (pA, rsA)"
      and low: "\<forall>(q, qs) \<in> set ?m. q < pA \<longrightarrow> \<not> route_matches i ev (q, qs)" for pA rsA
  proof -
    from first [OF A] obtain p rs where
      f: "(p, rs) \<in> set ?m" "route_matches i ev (p, rs)" "p \<le> pA"
      "dispatch i ev r = [(r_target (rs ! i), i, ev)]" by blast
    from low f(1,2) have "\<not> p < pA" by auto
    with f(3) have "p = pA" by simp
    from sorted have "distinct (map fst ?m)" by (rule sorted_keys_distinct)
    from eq_key_imp_eq_value [OF this f(1) [unfolded \<open>p = pA\<close>] A(1)] have "rs = rsA" .
    with f(4) show ?thesis by simp
  qed
  have notB: "select_route i ev ?m \<noteq> Some (pB, x)"
    if A: "(pA, rsA) \<in> set ?m" "route_matches i ev (pA, rsA)" and lt: "pA < pB" for pA rsA pB x
  proof
    assume "select_route i ev ?m = Some (pB, x)"
    from select_route_least [OF sorted this A] lt show False by simp
  qed
  show ?thesis
  proof (intro conjI allI impI)
    show "length (dispatch i ev r) \<le> 1" by (rule once)
    show "dispatch i ev r = [] \<longleftrightarrow> (\<forall>e \<in> set ?m. \<not> route_matches i ev e)" by (rule none)
  next
    fix pA rsA
    assume "(pA, rsA) \<in> set ?m \<and> route_matches i ev (pA, rsA)"
    then show "\<exists>p rs. (p, rs) \<in> set ?m \<and> route_matches i ev (p, rs) \<and> p \<le> pA
                 \<and> (\<forall>(q, qs) \<in> set ?m. route_matches i ev (q, qs) \<longrightarrow> p \<le> q)
                 \<and> select_route i ev ?m = Some (p, rs ! i)
                 \<and> dispatch i ev r = [(r_target (rs ! i), i, ev)]"
      using first [of pA rsA] by simp
  next
    fix pA rsA
    assume "(pA, rsA) \<in> set ?m \<and> route_matches i ev (pA, rsA)
         \<and> (\<forall>(q, qs) \<in> set ?m. q < pA \<longrightarrow> \<not> route_matches i ev (q, qs))"
    then show "dispatch i ev r = [(r_target (rsA ! i), i, ev)]"
      using own [of pA rsA] by simp
  next
    fix pA rsA pB rsB x
    assume "(pA, rsA) \<in> set ?m \<and> route_matches i ev (pA, rsA)
         \<and> (pB, rsB) \<in> set ?m \<and> route_matches i ev (pB, rsB) \<and> pA < pB"
    then show "select_route i ev ?m \<noteq> Some (pB, x)"
      using notB [of pA rsA pB x] by simp
  qed
qed

theorem dispatch_first_match_witness:
  "sorted_wrt (<) (map fst (m_priorityRoute three_route_table))
   \<and> route_A \<in> set (m_priorityRoute three_route_table) \<and> route_matches 0 JNull route_A
   \<and> route_B \<in> set (m_priorityRoute three_route_table) \<and> route_matches 0 JNull route_B
   \<and> fst route_A < fst route_B
   \<and> length (dispatch 0 JNull three_route_table) \<le> 1
   \<and> select_route 0 JNull (m_priorityRoute three_route_table) \<noteq> Some (fst route_B, snd route_B ! 0)"
proof -
  have tbl: "m_priorityRoute three_route_table =
     [(1, make_routes ''rC'' ''TC'' 1 [match_all]), route_A, route_B]"
    by (simp add: three_route_table_def route_A_def route_B_def eval_defs)
  have s: "sorted_wrt (<) (map fst (m_priorityRoute three_route_table))"
    by (simp add: tbl route_A_def route_B_def)
  have m: "route_matches 0 JNull route_A" "route_matches 0 JNull route_B"
    by (simp_all add: route_matches_def route_A_def route_B_def make_routes_def match_all_def)
  have lt: "fst route_A < fst route_B" by (simp add: route_A_def route_B_def)
  have inA: "(fst route_A, snd route_A) \<in> set (m_priorityRoute three_route_table)"
    and inB: "(fst route_B, snd route_B) \<in> set (m_priorityRoute three_route_table)"
    by (simp_all add: tbl)
  from dispatch_first_match [OF s, of 0 JNull]
  have once: "length (dispatch 0 JNull three_route_table) \<le> 1"
    and notB: "\<forall>pA rsA pB rsB. (pA, rsA) \<in> set (m_priorityRoute three_route_table)
         \<and> route_matches 0 JNull (pA, rsA)
         \<and> (pB, rsB) \<in> set (m_priorityRoute three_route_table)
         \<and> route_matches 0 JNull (pB, rsB) \<and> pA < pB \<longrightarrow>
         (\<forall>x. select_route 0 JNull (m_priorityRoute three_route_table) \<noteq> Some (pB, x))"
    by simp_all
  from notB [rule_format, of "fst route_A" "snd route_A" "fst route_B" "snd route_B"
               "snd route_B ! 0"] inA inB m lt
  have "select_route 0 JNull (m_priorityRoute three_route_table)
        \<noteq> Some (fst route_B, snd route_B ! 0)"
    by simp
  with once s m lt tbl show ?thesis by simp
qed

text \<open>
  C1 as stated fails when a third route is ahead: routes \<open>rA\<close> at 5 and \<open>rB\<close> at 10
  both match, but so does \<open>rC\<close> at 1, and the single \<open>ingest\<close> call goes to the
  environment of \<open>rC\<close>, not to that of \<open>rA\<close>.
\<close>

theorem dispatch_priority_counterexample:
  "route_A \<in> set (m_priorityRoute three_route_table) \<and> route_matches 0 JNull route_A
   \<and> route_B \<in> set (m_priorityRoute three_route_table) \<and> route_matches 0 JNull route_B
   \<and> fst route_A < fst route_B
   \<and> dispatch 0 JNull three_route_table = [(''TC'', 0, JNull)]
   \<and> (''TA'', 0, JNull) \<notin> set (dispatch 0 JNull three_route_table)"
  by (simp add: three_route_table_def route_A_def route_B_def eval_defs dispatch_def
        route_matches_def match_all_def)

section \<open>Loading the catalog\<close>

lemma row_json_fields:
  "getString JSON_PATH_NAME (row_json (n, p, t)) = Some n"
  "getInt JSON_PATH_PRIORITY (row_json (n, p, t)) = (if p < 2 ^ 31 then Some (of_nat p) else None)"
  "getString JSON_PATH_TARGET (row_json (n, p, t)) = Some t"
  by (simp_all add: row_json_def getString_def getInt_def json_at_def JSON_PATH_NAME_def
        JSON_PATH_PRIORITY_def JSON_PATH_TARGET_def)

lemma row_json_ok: "record_ok (row_json row) \<longleftrightarrow> fst (snd row) < 2 ^ 31"
  by (cases row) (simp add: record_ok_def row_json_fields)

lemma acquire_unknown:
  "em_ok em \<Longrightarrow> 0 < em_threads em \<Longrightarrow> em_builder em t = Inl e \<Longrightarrow> acquire t em = Inl e"
  by (cases "em_envs em t") (fastforce simp: acquire_def em_ok_def build_replicas_unknown)+

lemma acquire_known:
  "em_builder em t = Inr pred \<Longrightarrow> \<exists>hs em'. acquire t em = Inr (hs, em')"
  by (cases "em_envs em t") (auto simp: acquire_def build_replicas_known)

lemma addRoute_unknown:
  assumes inv: "router_inv r" and n: "n \<noteq> []" "m_namePriority r n = None"
    and p: "\<forall>k \<in> fst ` set (m_priorityRoute r). k < p" and range: "p < 2 ^ 31"
    and b: "m_builder r t = Inl e"
  shows "addRoute n t (of_nat p) r w = Returned (Some e, r) w"
proof -
  note key = c_int_of_key [OF range]
  from p have "p \<notin> fst ` set (m_priorityRoute r)" by auto
  then have fresh: "map_of (m_priorityRoute r) p = None" by (simp add: map_of_None_keys)
  from inv b have "acquire t (m_environmentManager r) = Inl e"
    by (intro acquire_unknown) (simp_all add: router_inv_def)
  with n fresh show ?thesis by (simp add: addRoute_def key)
qed

lemma addRoute_known:
  assumes inv: "router_inv r" and rel: "reliable (w_store w)"
    and n: "n \<noteq> []" "m_namePriority r n = None"
    and p: "\<forall>k \<in> fst ` set (m_priorityRoute r). k < p" and range: "p < 2 ^ 31"
    and b: "m_builder r t = Inr pred"
  shows "\<exists>r' w'. addRoute n t (of_nat p) r w = Returned (None, r') w'
           \<and> route_rows (m_priorityRoute r') = route_rows (m_priorityRoute r) @ [(n, p, t)]
           \<and> m_namePriority r' = (m_namePriority r)(n \<mapsto> p)
           \<and> fst ` set (m_priorityRoute r') = insert p (fst ` set (m_priorityRoute r))
           \<and> w_log w' = w_log w \<and> reliable (w_store w')"
proof -
  from p have "p \<notin> fst ` set (m_priorityRoute r)" by auto
  then have fresh: "map_of (m_priorityRoute r) p = None" by (simp add: map_of_None_keys)
  from inv have em: "em_ok (m_environmentManager r)" "0 < em_threads (m_environmentManager r)"
    "em_builder (m_environmentManager r) = m_builder r"
    by (simp_all add: router_inv_def)
  from acquire_known [of "m_environmentManager r" t pred] b em(3) obtain hs em' where
    acq: "acquire t (m_environmentManager r) = Inr (hs, em')" by auto
  from acquire_ok [OF em(1) em(2) acq] em(2) have "hs \<noteq> []" by auto
  then obtain x xs where mk: "make_routes n t p hs = x # xs" "r_name x = n" "r_target x = t"
    using make_routes_Cons by blast
  let ?r = "r\<lparr>m_namePriority := (m_namePriority r)(n \<mapsto> p),
               m_priorityRoute := map_insert p (make_routes n t p hs) (m_priorityRoute r),
               m_environmentManager := em'\<rparr>"
  have eq: "addRoute n t (of_nat p) r w = persist ?r w"
    using n fresh acq by (simp add: addRoute_def c_int_of_key [OF range])
  from persist_reliable [OF rel, of ?r] obtain w' where
    per: "persist ?r w = Returned (None, ?r) w'" by blast
  from persist_Returned [OF per] rel have w': "w_log w' = w_log w" "reliable (w_store w')"
    by (auto simp: reliable_def)
  have ins: "map_insert p (x # xs) (m_priorityRoute r) = m_priorityRoute r @ [(p, x # xs)]"
    using p by (simp add: map_insert_last)
  show ?thesis
    using eq per w' mk
    by (intro exI [of _ ?r] exI [of _ w']) (simp add: ins route_rows_append insert_commute)
qed

lemma load_rows:
  assumes "router_inv r" and "reliable (w_store w)"
    and "\<forall>row \<in> set rows. fst row \<noteq> [] \<and> m_namePriority r (fst row) = None
           \<and> (\<forall>k \<in> fst ` set (m_priorityRoute r). k < fst (snd row))
           \<and> fst (snd row) < 2 ^ 31"
    and "sorted_wrt (<) (map (\<lambda>row. fst (snd row)) rows)" and "distinct (map fst rows)"
  shows "\<exists>r' w'. load_routes (map row_json rows) r w = Returned r' w'
     \<and> getRouteTable r' = getRouteTable r @ filter (buildable (m_builder r)) rows
     \<and> w_log w' = w_log w @ map (skip_warning (m_builder r))
                               (filter (\<lambda>row. \<not> buildable (m_builder r) row) rows)
     \<and> reliable (w_store w')"
  using assms
proof (induction rows arbitrary: r w)
  case Nil
  then show ?case by simp
next
  case (Cons row rows)
  obtain n p t where row: "row = (n, p, t)" by (cases row) auto
  from Cons.prems(3) row have n: "n \<noteq> []" "m_namePriority r n = None"
    and p: "\<forall>k \<in> fst ` set (m_priorityRoute r). k < p" and range: "p < 2 ^ 31"
    by auto
  from Cons.prems(4) row have later: "\<forall>row' \<in> set rows. p < fst (snd row')" by auto
  from Cons.prems(5) row have other: "\<forall>row' \<in> set rows. fst row' \<noteq> n" by auto
  from Cons.prems(4) have sorted: "sorted_wrt (<) (map (\<lambda>row. fst (snd row)) rows)" by simp
  from Cons.prems(5) have dist: "distinct (map fst rows)" by simp
  show ?case
  proof (cases "m_builder r t")
    case (Inl e)
    have step: "addRoute n t (of_nat p) r w = Returned (Some e, r) w"
      by (rule addRoute_unknown [OF Cons.prems(1) n p range Inl])
    let ?w = "log_msg Warn (''Router: couldn't add route '' @ n @ '' to the router: {}'')
                [message e] w"
    have rel: "reliable (w_store ?w)" using Cons.prems(2) by (simp add: log_msg_def)
    from Cons.prems(3) have rest: "\<forall>row \<in> set rows. fst row \<noteq> [] \<and> m_namePriority r (fst row) = None
           \<and> (\<forall>k \<in> fst ` set (m_priorityRoute r). k < fst (snd row))
           \<and> fst (snd row) < 2 ^ 31" by simp
    from Cons.IH [OF Cons.prems(1) rel rest sorted dist] obtain r' w' where
      ih: "load_routes (map row_json rows) r ?w = Returned r' w'"
      "getRouteTable r' = getRouteTable r @ filter (buildable (m_builder r)) rows"
      "w_log w' = w_log ?w @ map (skip_warning (m_builder r))
                               (filter (\<lambda>row. \<not> buildable (m_builder r) row) rows)"
      "reliable (w_store w')" by blast
    have "load_routes (map row_json (row # rows)) r w = Returned r' w'"
      using ih(1) range by (simp add: row row_json_fields step)
    moreover have "\<not> buildable (m_builder r) row" by (simp add: buildable_def row Inl)
    moreover have "skip_warning (m_builder r) row
        = (Warn, ''Router: couldn't add route '' @ n @ '' to the router: {}'', [message e])"
      by (simp add: skip_warning_def row Inl)
    ultimately show ?thesis using ih(2,3,4)
      by (intro exI [of _ r'] exI [of _ w']) (simp add: log_msg_def)
  next
    case (Inr pred)
    from addRoute_known [OF Cons.prems(1,2) n p range Inr] obtain r1 w1 where
      step: "addRoute n t (of_nat p) r w = Returned (None, r1) w1"
      and rows1: "route_rows (m_priorityRoute r1) = route_rows (m_priorityRoute r) @ [(n, p, t)]"
      and names1: "m_namePriority r1 = (m_namePriority r)(n \<mapsto> p)"
      and keys1: "fst ` set (m_priorityRoute r1) = insert p (fst ` set (m_priorityRoute r))"
      and log1: "w_log w1 = w_log w" and rel1: "reliable (w_store w1)"
      by blast
    from addRoute_inv [OF Cons.prems(1) step] have inv1: "router_inv r1"
      and b1: "m_builder r1 = m_builder r" by simp_all
    have rest: "\<forall>row \<in> set rows. fst row \<noteq> [] \<and> m_namePriority r1 (fst row) = None
           \<and> (\<forall>k \<in> fst ` set (m_priorityRoute r1). k < fst (snd row))
           \<and> fst (snd row) < 2 ^ 31"
      using Cons.prems(3) later other by (auto simp: names1 keys1)
    from Cons.IH [OF inv1 rel1 rest sorted dist] obtain r' w' where
      ih: "load_routes (map row_json rows) r1 w1 = Returned r' w'"
      "getRouteTable r' = getRouteTable r1 @ filter (buildable (m_builder r1)) rows"
      "w_log w' = w_log w1 @ map (skip_warning (m_builder r1))
                               (filter (\<lambda>row. \<not> buildable (m_builder r1) row) rows)"
      "reliable (w_store w')" by blast
    have "load_routes (map row_json (row # rows)) r w = Returned r' w'"
      using range by (simp add: row row_json_fields step ih(1))
    moreover have "buildable (m_builder r) row" by (simp add: buildable_def row Inr)
    ultimately show ?thesis using ih(2,3,4) rows1 log1
      by (simp add: b1 getRouteTable_def row)
  qed
qed

lemma load_routes_returns:
  "list_all record_ok table \<Longrightarrow> reliable (w_store w) \<Longrightarrow>
   \<exists>r' w'. load_routes table r w = Returned r' w'"
proof (induction table arbitrary: r w)
  case Nil
  then show ?case by simp
next
  case (Cons j table)
  from Cons.prems(1) obtain name priority target where f: "getString JSON_PATH_NAME j = Some name"
    "getInt JSON_PATH_PRIORITY j = Some priority" "getString JSON_PATH_TARGET j = Some target"
    by (auto simp: record_ok_def)
  from Cons.prems(1) have ok: "list_all record_ok table" by simp
  from addRoute_returns [OF Cons.prems(2), of name target priority r] obtain err r1 w1 where
    step: "addRoute name target priority r w = Returned (err, r1) w1"
    and rel: "reliable (w_store w1)"
    by blast
  have rel': "reliable (w_store (log_msg Warn m args w1))" for m args
    using rel by (simp add: log_msg_def)
  show ?case using Cons.IH [OF ok rel] Cons.IH [OF ok rel']
    by (cases err) (simp_all add: f step)
qed

lemma addRoute_error:
  "addRoute n t p r w = Returned (Some e, r1) w1 \<Longrightarrow> r1 = r \<and> w1 = w"
  by (auto simp: addRoute_def dest!: persist_Returned split: if_splits sum.splits)

lemma Router_load:
  "0 < W \<Longrightarrow> docs (w_store w) ROUTES_TABLE_NAME = Some (JArray table) \<Longrightarrow>
   Router (Some b) W w =
     (case load_routes table (empty_router b W) w of
        Returned r w' \<Rightarrow>
          Returned r (if getRouteTable r = [] then log_msg Warn NO_ENVIRONMENT_WARNING [] w'
                      else w')
      | Thrown msg w' \<Rightarrow> Thrown msg w'
      | Exited w' \<Rightarrow> Exited w')"
  by (simp add: Router_def store_get_def getArray_def)

lemma load_rows_empty_router:
  assumes "0 < W" and "reliable (w_store w)"
    and "\<forall>row \<in> set rows. fst row \<noteq> [] \<and> fst (snd row) < 2 ^ 31"
    and "distinct (map fst rows)" and "sorted_wrt (<) (map (\<lambda>row. fst (snd row)) rows)"
  shows "\<exists>r' w'. load_routes (map row_json rows) (empty_router b W) w = Returned r' w'
     \<and> getRouteTable r' = filter (buildable b) rows
     \<and> w_log w' = w_log w @ map (skip_warning b) (filter (\<lambda>row. \<not> buildable b row) rows)"
proof -
  have inv: "router_inv (empty_router b W)" using assms(1) by (rule empty_router_inv)
  have fresh: "\<forall>row \<in> set rows. fst row \<noteq> [] \<and> m_namePriority (empty_router b W) (fst row) = None
           \<and> (\<forall>k \<in> fst ` set (m_priorityRoute (empty_router b W)). k < fst (snd row))
           \<and> fst (snd row) < 2 ^ 31"
    using assms(3) by (simp add: empty_router_def)
  from load_rows [OF inv assms(2) fresh assms(5) assms(4)]
  show ?thesis by (auto simp: empty_router_def getRouteTable_def)
qed

text \<open>
  C7. Let the stored catalog be an array of well-formed records and let no store write
  fail. Then construction succeeds whatever \<open>addRoute\<close> answers for the records. When
  moreover the records have non-empty, pairwise different names and strictly ascending
  priorities, the table of the new router lists exactly the records whose target the builder
  knows, in the stored order, and the log gains one warning for each other record, in order
  (and last the no-environment warning if nothing was loaded). In the loop itself, a
  record for which \<open>addRoute\<close> answers any error leaves router and store as they were,
  adds the warning to the log, and the loop goes on with the remaining records. A warning
  is the logging call of the code: the format string with the route name inside it, and the
  message of the error as argument.
\<close>

theorem load_skips_failed_records:
  assumes "0 < W" and "docs (w_store w) ROUTES_TABLE_NAME = Some (JArray table)"
    and "list_all record_ok table" and "reliable (w_store w)"
  shows "(\<exists>r' w'. Router (Some b) W w = Returned r' w')
     \<and> (\<forall>rows. table = map row_json rows \<and> (\<forall>row \<in> set rows. fst row \<noteq> [])
            \<and> distinct (map fst rows) \<and> sorted_wrt (<) (map (\<lambda>row. fst (snd row)) rows) \<longrightarrow>
          (\<exists>r' w'. Router (Some b) W w = Returned r' w'
             \<and> getRouteTable r' = filter (buildable b) rows
             \<and> w_log w' = w_log w
                   @ map (skip_warning b) (filter (\<lambda>row. \<not> buildable b row) rows)
                   @ (if filter (buildable b) rows = []
                      then [(Warn, NO_ENVIRONMENT_WARNING, [])] else [])))
     \<and> (\<forall>j rest r0 w0 name priority target err r1 w1.
          getString JSON_PATH_NAME j = Some name \<and> getInt JSON_PATH_PRIORITY j = Some priority
          \<and> getString JSON_PATH_TARGET j = Some target
          \<and> addRoute name target priority r0 w0 = Returned (Some err, r1) w1 \<longrightarrow>
          r1 = r0 \<and> w1 = w0
          \<and> load_routes (j # rest) r0 w0
              = load_routes rest r0
                  (log_msg Warn
                     (''Router: couldn't add route '' @ name @ '' to the router: {}'')
                     [message err] w0))"
proof (intro conjI allI impI)
  fix j rest r0 w0 name priority target err r1 w1
  assume a: "getString JSON_PATH_NAME j = Some name \<and> getInt JSON_PATH_PRIORITY j = Some priority
          \<and> getString JSON_PATH_TARGET j = Some target
          \<and> addRoute name target priority r0 w0 = Returned (Some err, r1) w1"
  then have same: "r1 = r0 \<and> w1 = w0" by (auto dest: addRoute_error)
  then show "r1 = r0" and "w1 = w0" by simp_all
  from a same show "load_routes (j # rest) r0 w0
              = load_routes rest r0
                  (log_msg Warn
                     (''Router: couldn't add route '' @ name @ '' to the router: {}'')
                     [message err] w0)"
    by simp
next
  from load_routes_returns [OF assms(3,4), of "empty_router b W"] obtain r' w' where
    "load_routes table (empty_router b W) w = Returned r' w'" by blast
  then show "\<exists>r' w'. Router (Some b) W w = Returned r' w'"
    by (simp add: Router_load [OF assms(1,2)])
next
  fix rows
  assume a: "table = map row_json rows \<and> (\<forall>row \<in> set rows. fst row \<noteq> [])
            \<and> distinct (map fst rows) \<and> sorted_wrt (<) (map (\<lambda>row. fst (snd row)) rows)"
  then have t: "table = map row_json rows" by simp
  with assms(3) have range: "\<forall>row \<in> set rows. fst (snd row) < 2 ^ 31"
    by (simp add: list_all_iff row_json_ok)
  with a have "\<forall>row \<in> set rows. fst row \<noteq> [] \<and> fst (snd row) < 2 ^ 31"
    "distinct (map fst rows)" "sorted_wrt (<) (map (\<lambda>row. fst (snd row)) rows)" by simp_all
  from load_rows_empty_router [OF assms(1) assms(4) this, of b] obtain r' w' where
    l: "load_routes (map row_json rows) (empty_router b W) w = Returned r' w'"
    "getRouteTable r' = filter (buildable b) rows"
    "w_log w' = w_log w @ map (skip_warning b) (filter (\<lambda>row. \<not> buildable b row) rows)"
    by blast
  show "\<exists>r' w'. Router (Some b) W w = Returned r' w'
             \<and> getRouteTable r' = filter (buildable b) rows
             \<and> w_log w' = w_log w
                   @ map (skip_warning b) (filter (\<lambda>row. \<not> buildable b row) rows)
                   @ (if filter (buildable b) rows = []
                      then [(Warn, NO_ENVIRONMENT_WARNING, [])] else [])"
    using l by (simp add: Router_load [OF assms(1,2)] t log_msg_def)
qed

theorem load_skips_failed_records_witness:
  "(0::nat) < 1
   \<and> docs (w_store (quiet_world mixed_catalog_store)) ROUTES_TABLE_NAME
       = Some (JArray (map row_json mixed_rows))
   \<and> list_all record_ok (map row_json mixed_rows)
   \<and> reliable (w_store (quiet_world mixed_catalog_store))
   \<and> (\<exists>r' w'. Router (Some only_TA) 1 (quiet_world mixed_catalog_store) = Returned r' w'
         \<and> getRouteTable r' = [(''r1'', 1, ''TA''), (''r3'', 3, ''TA'')]
         \<and> w_log w' = [(Warn, ''Router: couldn't add route r{}2 to the router: {}'',
                        [''TargetNotFound''])])"
proof -
  have a: "docs (w_store (quiet_world mixed_catalog_store)) ROUTES_TABLE_NAME
       = Some (JArray (map row_json mixed_rows))"
    by (simp add: quiet_world_def mixed_catalog_store_def store_of_def)
  have b: "list_all record_ok (map row_json mixed_rows)"
    by (simp add: list_all_iff row_json_ok mixed_rows_def)
  have c: "reliable (w_store (quiet_world mixed_catalog_store))"
    by (simp add: quiet_world_def mixed_catalog_store_def store_of_reliable)
  have d: "(\<forall>row \<in> set mixed_rows. fst row \<noteq> []) \<and> distinct (map fst mixed_rows)
           \<and> sorted_wrt (<) (map (\<lambda>row. fst (snd row)) mixed_rows)"
    by (simp add: mixed_rows_def)
  have e: "filter (buildable only_TA) mixed_rows = [(''r1'', 1, ''TA''), (''r3'', 3, ''TA'')]"
    "map (skip_warning only_TA) (filter (\<lambda>row. \<not> buildable only_TA row) mixed_rows)
       = [(Warn, ''Router: couldn't add route r{}2 to the router: {}'', [''TargetNotFound''])]"
    by (simp_all add: mixed_rows_def buildable_def skip_warning_def only_TA_def)
  have pos: "(0::nat) < 1" by simp
  note loaded = load_skips_failed_records [OF pos a b c, of only_TA]
  from loaded [THEN conjunct2, THEN conjunct1, rule_format, of mixed_rows] d
  have "\<exists>r' w'. Router (Some only_TA) 1 (quiet_world mixed_catalog_store) = Returned r' w'
           \<and> getRouteTable r' = filter (buildable only_TA) mixed_rows
           \<and> w_log w' = w_log (quiet_world mixed_catalog_store)
                   @ map (skip_warning only_TA) (filter (\<lambda>row. \<not> buildable only_TA row) mixed_rows)
                   @ (if filter (buildable only_TA) mixed_rows = []
                      then [(Warn, NO_ENVIRONMENT_WARNING, [])] else [])"
    by simp
  then show ?thesis using a b c unfolding e by (simp add: quiet_world_def)
qed

lemma router_inv_rows:
  assumes inv: "router_inv r"
  shows "(\<forall>row \<in> set (getRouteTable r). fst row \<noteq> [] \<and> fst (snd row) < 2 ^ 31)
         \<and> distinct (map fst (getRouteTable r))
         \<and> sorted_wrt (<) (map (\<lambda>row. fst (snd row)) (getRouteTable r))"
proof (intro conjI ballI)
  fix row
  assume in_rows: "row \<in> set (getRouteTable r)"
  obtain n p t where row: "row = (n, p, t)" by (cases row) auto
  from in_rows have "(n, p, t) \<in> set (route_rows (m_priorityRoute r))"
    by (simp add: row getRouteTable_def)
  then obtain x xs where e: "(p, x # xs) \<in> set (m_priorityRoute r)" "fst row = r_name x"
    by (auto simp: route_rows_iff row)
  from inv e(1) have ok: "entry_ok (m_numThreads r) (p, x # xs)" by (auto simp: router_inv_def)
  with e(2) show "fst row \<noteq> []" by (auto simp: entry_ok_def)
  from ok show "fst (snd row) < 2 ^ 31" by (simp add: entry_ok_def row)
next
  from router_inv_I1 [OF inv] show "distinct (map fst (getRouteTable r))" by (simp add: I1_def)
next
  from inv have "sorted_wrt (<) (map fst (m_priorityRoute r))" by (simp add: router_inv_def)
  from route_rows_sorted [OF this]
  show "sorted_wrt (<) (map (\<lambda>row. fst (snd row)) (getRouteTable r))"
    by (simp add: getRouteTable_def comp_def)
qed

text \<open>
  C3. Take the table of a router reached from the empty table by management operations,
  serialized by \<open>tableToJson\<close>, as the document under the fixed key of a store whose
  writes do not fail. If the builder of a new router knows every recorded target, its
  construction succeeds and \<open>getRouteTable\<close> answers the same rows, in ascending
  priority.
\<close>

theorem catalog_round_trip:
  assumes "0 < W0" and "run_ops ops (empty_router b0 W0) w0 = Returned r0 w1"
    and "docs (w_store w) ROUTES_TABLE_NAME = Some (tableToJson r0)"
    and "\<forall>row \<in> set (getRouteTable r0). buildable b row"
    and "0 < W" and "reliable (w_store w)"
  shows "\<exists>r w'. Router (Some b) W w = Returned r w'
           \<and> getRouteTable r = getRouteTable r0
           \<and> sorted_wrt (<) (map (\<lambda>row. fst (snd row)) (getRouteTable r))"
proof -
  from assms(1) have "router_inv (empty_router b0 W0)" by (rule empty_router_inv)
  from run_ops_inv [OF this assms(2)] have "router_inv r0" by simp
  from router_inv_rows [OF this]
  have rows: "\<forall>row \<in> set (getRouteTable r0). fst row \<noteq> [] \<and> fst (snd row) < 2 ^ 31"
    "distinct (map fst (getRouteTable r0))"
    "sorted_wrt (<) (map (\<lambda>row. fst (snd row)) (getRouteTable r0))" by simp_all
  from load_rows_empty_router [OF assms(5,6) rows, of b] obtain r' w' where
    l: "load_routes (map row_json (getRouteTable r0)) (empty_router b W) w = Returned r' w'"
    "getRouteTable r' = filter (buildable b) (getRouteTable r0)"
    by blast
  from assms(4) have all: "filter (buildable b) (getRouteTable r0) = getRouteTable r0"
    by (simp add: filter_id_conv)
  from assms(3) have doc: "docs (w_store w) ROUTES_TABLE_NAME
      = Some (JArray (map row_json (getRouteTable r0)))" by (simp add: tableToJson_def)
  show ?thesis using l rows(3) by (simp add: Router_load [OF assms(5) doc] all)
qed

theorem catalog_round_trip_witness:
  "(0::nat) < 1 \<and>
   (case run_ops mixed_ops (empty_router open_builder 1) (quiet_world (store_of [] [])) of
      Returned r0 w1 \<Rightarrow>
        docs (w_store w1) ROUTES_TABLE_NAME = Some (tableToJson r0)
        \<and> getRouteTable r0 = [(''rB'', 0, ''TB''), (''rA'', 5, ''TA'')]
        \<and> reliable (w_store w1)
        \<and> (\<exists>r w'. Router (Some open_builder) 2 w1 = Returned r w'
               \<and> getRouteTable r = [(''rB'', 0, ''TB''), (''rA'', 5, ''TA'')])
    | Thrown msg w1 \<Rightarrow> False
    | Exited w1 \<Rightarrow> False)"
proof -
  have "reliable (w_store (quiet_world (store_of [] [])))"
    by (simp add: quiet_world_def store_of_reliable)
  from run_ops_returns [OF this] obtain r0 w1 where
    ev: "run_ops mixed_ops (empty_router open_builder 1) (quiet_world (store_of [] [])) = Returned r0 w1"
    and rel: "reliable (w_store w1)"
    by blast
  from ev have rows: "getRouteTable r0 = [(''rB'', 0, ''TB''), (''rA'', 5, ''TA'')]"
    and doc: "docs (w_store w1) ROUTES_TABLE_NAME = Some (tableToJson r0)"
    by (auto simp: eval_defs)
  have build: "\<forall>row \<in> set (getRouteTable r0). buildable open_builder row"
    by (simp add: rows buildable_def open_builder_def)
  from catalog_round_trip [OF _ ev doc build _ rel, of 2] obtain r w' where
    "Router (Some open_builder) 2 w1 = Returned r w'" "getRouteTable r = getRouteTable r0"
    by auto
  then have "\<exists>r w'. Router (Some open_builder) 2 w1 = Returned r w'
               \<and> getRouteTable r = [(''rB'', 0, ''TB''), (''rA'', 5, ''TA'')]"
    using rows by auto
  with rows doc rel show ?thesis unfolding ev by simp
qed

section \<open>Start-up with nothing loaded\<close>

lemma addRoute_outcome:
  "addRoute n t p r w = Returned (err, r') w' \<Longrightarrow>
   w_log w' = w_log w
   \<and> ((\<exists>e. err = Some e \<and> r' = r \<and> w' = w)
       \<or> (err = None \<and> m_namePriority r' = (m_namePriority r)(n \<mapsto> nat (sint p))))"
  by (auto simp: addRoute_def dest!: persist_Returned split: if_splits sum.splits)

lemma load_routes_log:
  "load_routes table r w = Returned r' w' \<Longrightarrow>
   \<exists>l. w_log w' = w_log w @ l \<and> (Warn, NO_ENVIRONMENT_WARNING, []) \<notin> set l"
proof (induction table arbitrary: r w)
  case Nil
  then show ?case by simp
next
  case (Cons j table)
  from Cons.prems obtain name priority target err r1 w1 where
    f: "getString JSON_PATH_NAME j = Some name" "getInt JSON_PATH_PRIORITY j = Some priority"
       "getString JSON_PATH_TARGET j = Some target"
    and step: "addRoute name target priority r w = Returned (err, r1) w1"
    by (auto split: option.splits outcome.splits prod.splits)
  from addRoute_outcome [OF step] have log1: "w_log w1 = w_log w" by simp
  show ?case
  proof (cases err)
    case None
    with Cons.prems f step have "load_routes table r1 w1 = Returned r' w'" by simp
    from Cons.IH [OF this] log1 show ?thesis by simp
  next
    case (Some e)
    let ?m = "''Router: couldn't add route '' @ name @ '' to the router: {}''"
    from Some Cons.prems f step
    have "load_routes table r1 (log_msg Warn ?m [message e] w1) = Returned r' w'"
      by simp
    from Cons.IH [OF this] obtain l where
      l: "w_log w' = w_log (log_msg Warn ?m [message e] w1) @ l"
      "(Warn, NO_ENVIRONMENT_WARNING, []) \<notin> set l"
      by blast
    with log1 show ?thesis
      by (intro exI [of _ "(Warn, ?m, [message e]) # l"]) (simp add: log_msg_def)
  qed
qed

text \<open>A load that leaves the name index empty has added nothing and written nothing.\<close>

lemma load_routes_nothing:
  "load_routes table r w = Returned r' w' \<Longrightarrow> m_namePriority r' = Map.empty \<Longrightarrow>
   r' = r \<and> w_store w' = w_store w"
proof (induction table arbitrary: r w)
  case Nil
  then show ?case by simp
next
  case (Cons j table)
  from Cons.prems(1) obtain name priority target err r1 w1 where
    f: "getString JSON_PATH_NAME j = Some name" "getInt JSON_PATH_PRIORITY j = Some priority"
       "getString JSON_PATH_TARGET j = Some target"
    and step: "addRoute name target priority r w = Returned (err, r1) w1"
    by (auto split: option.splits outcome.splits prod.splits)
  show ?case
  proof (cases err)
    case None
    with Cons.prems(1) f step have rest: "load_routes table r1 w1 = Returned r' w'" by simp
    from Cons.IH [OF rest Cons.prems(2)] have "r' = r1" by simp
    with Cons.prems(2) have "m_namePriority r1 name = None" by simp
    moreover from addRoute_outcome [OF step] None
    have "m_namePriority r1 name = Some (nat (sint priority))" by simp
    ultimately show ?thesis by simp
  next
    case (Some e)
    with addRoute_outcome [OF step] have same: "r1 = r" "w1 = w" by simp_all
    let ?m = "''Router: couldn't add route '' @ name @ '' to the router: {}''"
    from Some Cons.prems(1) f step same
    have rest: "load_routes table r (log_msg Warn ?m [message e] w) = Returned r' w'"
      by simp
    from Cons.IH [OF rest Cons.prems(2)] show ?thesis by (simp add: log_msg_def)
  qed
qed

text \<open>Records whose targets the builder does not know: each is logged, none is added.\<close>

lemma load_routes_all_unknown:
  assumes "0 < W"
    and "\<forall>row \<in> set rows. fst row \<noteq> [] \<and> fst (snd row) < 2 ^ 31 \<and> \<not> buildable b row"
  shows "load_routes (map row_json rows) (empty_router b W) w
         = Returned (empty_router b W) (w\<lparr>w_log := w_log w @ map (skip_warning b) rows\<rparr>)"
  using assms(2)
proof (induction rows arbitrary: w)
  case Nil
  then show ?case by simp
next
  case (Cons row rows)
  obtain n p t where row: "row = (n, p, t)" by (cases row) auto
  from Cons.prems row obtain e where e: "b t = Inl e"
    by (cases "b t") (auto simp: buildable_def)
  from Cons.prems row have n: "n \<noteq> []" and range: "p < 2 ^ 31" by auto
  have inv: "router_inv (empty_router b W)" using assms(1) by (rule empty_router_inv)
  have step: "addRoute n t (of_nat p) (empty_router b W) w = Returned (Some e, empty_router b W) w"
    by (rule addRoute_unknown [OF inv n _ _ range]) (simp_all add: empty_router_def e)
  from Cons.prems have rest: "\<forall>row \<in> set rows. fst row \<noteq> [] \<and> fst (snd row) < 2 ^ 31
                                 \<and> \<not> buildable b row" by simp
  have warn: "skip_warning b row
      = (Warn, ''Router: couldn't add route '' @ n @ '' to the router: {}'', [message e])"
    by (simp add: skip_warning_def row e)
  let ?w = "log_msg Warn (''Router: couldn't add route '' @ n @ '' to the router: {}'')
              [message e] w"
  have "load_routes (map row_json (row # rows)) (empty_router b W) w
        = load_routes (map row_json rows) (empty_router b W) ?w"
    using range by (simp add: row row_json_fields step)
  also have "\<dots> = Returned (empty_router b W)
                      (?w\<lparr>w_log := w_log ?w @ map (skip_warning b) rows\<rparr>)"
    by (rule Cons.IH [OF rest])
  also have "?w\<lparr>w_log := w_log ?w @ map (skip_warning b) rows\<rparr>
             = w\<lparr>w_log := w_log w @ map (skip_warning b) (row # rows)\<rparr>"
    by (simp add: log_msg_def warn)
  finally show ?case .
qed

text \<open>
  C8, as the constructor has it. Let the store hold a catalog (a JSON array). If the table
  is empty once the records are loaded, then nothing was loaded and nothing written, and
  the constructor returns the empty router, having logged, after the warnings of the load,
  the no-environment warning exactly once as the last entry: no route is made up. If the
  table is not empty the constructor returns the loaded router as it is. In particular a
  stored empty array, and a catalog none of whose targets the builder knows, give the empty
  router and that warning. When the store holds no catalog, the constructor returns the
  empty router too, but with the debug entry about the new table only.
\<close>

theorem empty_table_warning:
  assumes "0 < W"
  shows "(\<forall>table. docs (w_store w) ROUTES_TABLE_NAME = Some (JArray table) \<longrightarrow>
          (\<forall>r1 w1. load_routes table (empty_router b W) w = Returned r1 w1
                    \<and> getRouteTable r1 = [] \<longrightarrow>
              r1 = empty_router b W \<and> w_store w1 = w_store w
              \<and> Router (Some b) W w
                  = Returned (empty_router b W) (log_msg Warn NO_ENVIRONMENT_WARNING [] w1)
              \<and> (\<exists>l. w_log w1 = w_log w @ l \<and> (Warn, NO_ENVIRONMENT_WARNING, []) \<notin> set l))
          \<and> (\<forall>r1 w1. load_routes table (empty_router b W) w = Returned r1 w1
                      \<and> getRouteTable r1 \<noteq> [] \<longrightarrow>
                Router (Some b) W w = Returned r1 w1)
          \<and> (table = [] \<longrightarrow>
                Router (Some b) W w
                  = Returned (empty_router b W) (log_msg Warn NO_ENVIRONMENT_WARNING [] w))
          \<and> (\<forall>rows. table = map row_json rows
                      \<and> (\<forall>row \<in> set rows. fst row \<noteq> [] \<and> fst (snd row) < 2 ^ 31
                                            \<and> \<not> buildable b row) \<longrightarrow>
                Router (Some b) W w
                  = Returned (empty_router b W)
                      (w\<lparr>w_log := w_log w @ map (skip_warning b) rows
                                    @ [(Warn, NO_ENVIRONMENT_WARNING, [])]\<rparr>)))
     \<and> (docs (w_store w) ROUTES_TABLE_NAME = None \<longrightarrow>
          Router (Some b) W w
            = Returned (empty_router b W)
                ((log_msg Debug
                    ''Router: Routes table not found in store. Creating new table. {}''
                    [message StoreKeyNotFound] w)
                 \<lparr>w_store := snd (store_add ROUTES_TABLE_NAME (JArray []) (w_store w))\<rparr>))"
proof (intro conjI allI impI)
  assume "docs (w_store w) ROUTES_TABLE_NAME = None"
  with assms show "Router (Some b) W w
            = Returned (empty_router b W)
                ((log_msg Debug
                    ''Router: Routes table not found in store. Creating new table. {}''
                    [message StoreKeyNotFound] w)
                 \<lparr>w_store := snd (store_add ROUTES_TABLE_NAME (JArray []) (w_store w))\<rparr>)"
    by (simp add: Router_def store_get_def)
next
  fix table r1 w1
  assume doc: "docs (w_store w) ROUTES_TABLE_NAME = Some (JArray table)"
    and l: "load_routes table (empty_router b W) w = Returned r1 w1 \<and> getRouteTable r1 = []"
  then have load: "load_routes table (empty_router b W) w = Returned r1 w1"
    and empty: "getRouteTable r1 = []" by simp_all
  have "router_inv (empty_router b W)" using assms by (rule empty_router_inv)
  from load_routes_inv [OF this load] have inv: "router_inv r1" by simp
  have "m_namePriority r1 = Map.empty"
  proof
    fix n
    from inv empty have "\<forall>p. m_namePriority r1 n \<noteq> Some p"
      by (simp add: router_inv_def getRouteTable_def)
    then show "m_namePriority r1 n = None" by (cases "m_namePriority r1 n") auto
  qed
  from load_routes_nothing [OF load this]
  show same: "r1 = empty_router b W" and "w_store w1 = w_store w" by simp_all
  from load empty same show "Router (Some b) W w
       = Returned (empty_router b W) (log_msg Warn NO_ENVIRONMENT_WARNING [] w1)"
    by (simp add: Router_load [OF assms doc])
  from load_routes_log [OF load]
  show "\<exists>l. w_log w1 = w_log w @ l \<and> (Warn, NO_ENVIRONMENT_WARNING, []) \<notin> set l" .
next
  fix table r1 w1
  assume doc: "docs (w_store w) ROUTES_TABLE_NAME = Some (JArray table)"
    and "load_routes table (empty_router b W) w = Returned r1 w1 \<and> getRouteTable r1 \<noteq> []"
  then show "Router (Some b) W w = Returned r1 w1"
    by (simp add: Router_load [OF assms doc])
next
  fix table
  assume doc: "docs (w_store w) ROUTES_TABLE_NAME = Some (JArray table)" and "table = []"
  then show "Router (Some b) W w
       = Returned (empty_router b W) (log_msg Warn NO_ENVIRONMENT_WARNING [] w)"
    by (simp add: Router_load [OF assms doc] getRouteTable_def empty_router_def)
next
  fix table rows
  assume doc: "docs (w_store w) ROUTES_TABLE_NAME = Some (JArray table)"
    and a: "table = map row_json rows
            \<and> (\<forall>row \<in> set rows. fst row \<noteq> [] \<and> fst (snd row) < 2 ^ 31 \<and> \<not> buildable b row)"
  then have t: "table = map row_json rows"
    and u: "\<forall>row \<in> set rows. fst row \<noteq> [] \<and> fst (snd row) < 2 ^ 31 \<and> \<not> buildable b row"
    by simp_all
  have "getRouteTable (empty_router b W) = []"
    by (simp add: getRouteTable_def empty_router_def)
  then show "Router (Some b) W w
       = Returned (empty_router b W)
           (w\<lparr>w_log := w_log w @ map (skip_warning b) rows
                         @ [(Warn, NO_ENVIRONMENT_WARNING, [])]\<rparr>)"
    by (simp add: Router_load [OF assms doc] t load_routes_all_unknown [OF assms u]
          log_msg_def)
qed

theorem empty_table_warning_witness:
  "(0::nat) < 1
   \<and> docs (w_store (quiet_world unknown_target_store)) ROUTES_TABLE_NAME
       = Some (JArray (map row_json [(''r1'', 7, ''TB'')]))
   \<and> \<not> buildable only_TA (''r1'', 7, ''TB'')
   \<and> Router (Some only_TA) 1 (quiet_world unknown_target_store)
       = Returned (empty_router only_TA 1) nothing_loaded
   \<and> getRouteTable (empty_router only_TA 1) = []"
proof -
  have pos: "(0::nat) < 1" by simp
  have doc: "docs (w_store (quiet_world unknown_target_store)) ROUTES_TABLE_NAME
       = Some (JArray (map row_json [(''r1'', 7, ''TB'')]))"
    by (simp add: quiet_world_def unknown_target_store_def store_of_def)
  have u: "\<not> buildable only_TA (''r1'', 7, ''TB'')"
    by (simp add: buildable_def only_TA_def)
  note warned = empty_table_warning [OF pos, of "quiet_world unknown_target_store" only_TA]
  from warned [THEN conjunct1, rule_format, OF doc, THEN conjunct2, THEN conjunct2,
             THEN conjunct2, rule_format, of "[(''r1'', 7, ''TB'')]"] u
  have "Router (Some only_TA) 1 (quiet_world unknown_target_store)
       = Returned (empty_router only_TA 1)
           (quiet_world unknown_target_store
              \<lparr>w_log := w_log (quiet_world unknown_target_store)
                          @ map (skip_warning only_TA) [(''r1'', 7, ''TB'')]
                          @ [(Warn, NO_ENVIRONMENT_WARNING, [])]\<rparr>)"
    by simp
  then have "Router (Some only_TA) 1 (quiet_world unknown_target_store)
       = Returned (empty_router only_TA 1) nothing_loaded"
    by (simp add: nothing_loaded_def quiet_world_def skip_warning_def only_TA_def)
  with doc u show ?thesis by (simp add: getRouteTable_def empty_router_def)
qed

text \<open>
  C8 as stated fails when the store holds no catalog: the table is empty after start-up,
  the constructor returns, and the only log entry is the debug message about the new
  table.
\<close>

theorem empty_table_warning_counterexample:
  "Router (Some open_builder) 1 (quiet_world (store_of [] []))
     = Returned (empty_router open_builder 1) world_after_missing
   \<and> getRouteTable (empty_router open_builder 1) = []
   \<and> (Warn, NO_ENVIRONMENT_WARNING, []) \<notin> set (w_log world_after_missing)"
  by (simp add: Router_def world_after_missing_def eval_defs)

end
